theory Spec2Isabelle
  imports Complex_Main "HOL-Library.AList"
begin

section \<open>Python values, errors and containers\<close>

text \<open>
  The exporter of \<^verbatim>\<open>src/idleon_saver/scripts/export.py\<close> works on decoded JSON:
  strings, numbers, lists and insertion-ordered dictionaries. Strings are modelled as
  ASCII \<open>string\<close>s, integers as \<open>int\<close>, JSON values that may be numbers or strings as
  \<open>jv\<close>, and a \<^verbatim>\<open>dict\<close> as an association list in insertion order whose keys are
  pairwise distinct; storing a key is \<open>AList.update\<close> (an existing key keeps its place,
  a new key goes to the end), as in CPython.

  Every \<^verbatim>\<open>raise\<close> and every failing subscript is a value \<open>Inl e\<close> of \<open>error + 'a\<close>.
\<close>

datatype pykey = SKey string | IKey int

datatype valerr =
    NoSuchClass int       \<comment> \<open>\<^verbatim>\<open>Class {which} does not exist\<close>\<close>
  | ShortCogList nat      \<comment> \<open>\<^verbatim>\<open>cog list must contain at least 96 entries ...\<close>\<close>
  | BadIntLiteral string  \<comment> \<open>\<^verbatim>\<open>invalid literal for int() with base 10\<close>\<close>

datatype error =
    ValueError valerr | KeyError pykey | IndexError | TypeError | OverflowError

datatype jv = JNum rat | JStr string | JNull

type_synonym ('k, 'v) dict = "('k \<times> 'v) list"

definition bindE :: "error + 'a \<Rightarrow> ('a \<Rightarrow> error + 'b) \<Rightarrow> error + 'b" where
  "bindE m f = (case m of Inl e \<Rightarrow> Inl e | Inr x \<Rightarrow> f x)"

text \<open>A \<^verbatim>\<open>for\<close> loop (or comprehension) that updates an accumulator and stops at the
  first exception.\<close>

primrec foldE :: "('a \<Rightarrow> 's \<Rightarrow> error + 's) \<Rightarrow> 'a list \<Rightarrow> 's \<Rightarrow> error + 's" where
  "foldE f [] s = Inr s"
| "foldE f (x # xs) s = (case f x s of Inl e \<Rightarrow> Inl e | Inr s' \<Rightarrow> foldE f xs s')"

text \<open>\<^verbatim>\<open>list(map(f, xs))\<close> for an \<open>f\<close> that may raise.\<close>

primrec mapE :: "('a \<Rightarrow> error + 'b) \<Rightarrow> 'a list \<Rightarrow> error + 'b list" where
  "mapE f [] = Inr []"
| "mapE f (x # xs) =
     (case f x of Inl e \<Rightarrow> Inl e
      | Inr y \<Rightarrow> (case mapE f xs of Inl e \<Rightarrow> Inl e | Inr ys \<Rightarrow> Inr (y # ys)))"

text \<open>\<^verbatim>\<open>d[k]\<close> on a dictionary, and \<^verbatim>\<open>xs[i]\<close> on a list (negative indices count from
  the end).\<close>

definition getitem :: "('k \<Rightarrow> pykey) \<Rightarrow> ('k \<rightharpoonup> 'v) \<Rightarrow> 'k \<Rightarrow> error + 'v" where
  "getitem tag d k = (case d k of None \<Rightarrow> Inl (KeyError (tag k)) | Some v \<Rightarrow> Inr v)"

definition list_getitem :: "'a list \<Rightarrow> int \<Rightarrow> error + 'a" where
  "list_getitem xs i =
     (if 0 \<le> i \<and> i < int (length xs) then Inr (xs ! nat i)
      else if i < 0 \<and> - int (length xs) \<le> i then Inr (xs ! nat (int (length xs) + i))
      else Inl IndexError)"

text \<open>\<^verbatim>\<open>a | b\<close> on dictionaries: the entries of \<open>a\<close>, overwritten and extended by those
  of \<open>b\<close> in order.\<close>

definition dict_union :: "('k, 'v) dict \<Rightarrow> ('k, 'v) dict \<Rightarrow> ('k, 'v) dict" where
  "dict_union a b = fold (\<lambda>(k, v). AList.update k v) b a"

text \<open>\<^verbatim>\<open>s.startswith(p)\<close>, \<^verbatim>\<open>s.endswith(p)\<close> and \<^verbatim>\<open>s.removeprefix(p)\<close>.\<close>

definition startswith :: "string \<Rightarrow> string \<Rightarrow> bool" where
  "startswith s p = (take (length p) s = p)"

definition endswith :: "string \<Rightarrow> string \<Rightarrow> bool" where
  "endswith s p = (length p \<le> length s \<and> drop (length s - length p) s = p)"

definition removeprefix :: "string \<Rightarrow> string \<Rightarrow> string" where
  "removeprefix s p = (if startswith s p then drop (length p) s else s)"

section \<open>Reference tables\<close>

text \<open>
  The tables of \<^verbatim>\<open>idleon_saver.data\<close> are immutable reference data supplied from
  outside the exporter; every function takes them as the parameter \<open>rd\<close>. Tables that
  are only subscripted are maps, tables that are iterated keep their order, tables
  subscripted by position are lists.
\<close>

record refdata =
  class_names :: "string list"
  card_reqs :: "string \<rightharpoonup> int"
  monster_names :: "string \<rightharpoonup> string"
  pouch_sizes :: "int \<rightharpoonup> string"
  pouch_names :: "string \<rightharpoonup> string"
  cog_type_map :: "(string, string) dict"
  cog_datas_map :: "(string, string) dict"
  cog_boosts :: "string list"
  constellation_names :: "string list"
  starsign_names :: "string list"
  starsign_ids :: "string \<rightharpoonup> string"
  skill_names :: "string list"
  bag_map_inv :: "string \<rightharpoonup> string"

section \<open>Strings\<close>

definition is_lower :: "char \<Rightarrow> bool" where
  "is_lower c = (97 \<le> (of_char c :: nat) \<and> (of_char c :: nat) \<le> 122)"

definition is_upper :: "char \<Rightarrow> bool" where
  "is_upper c = (65 \<le> (of_char c :: nat) \<and> (of_char c :: nat) \<le> 90)"

definition to_upper :: "char \<Rightarrow> char" where
  "to_upper c = (if is_lower c then char_of ((of_char c :: nat) - 32) else c)"

definition to_lower :: "char \<Rightarrow> char" where
  "to_lower c = (if is_upper c then char_of ((of_char c :: nat) + 32) else c)"

text \<open>\<^verbatim>\<open>str.title()\<close>: a letter that follows a letter is lowered, any other letter is
  raised; the flag says whether the previous character was a letter.\<close>

fun title_from :: "bool \<Rightarrow> string \<Rightarrow> string" where
  "title_from prev [] = []"
| "title_from prev (c # cs) =
     (if is_lower c then (if prev then c else to_upper c) # title_from True cs
      else if is_upper c then (if prev then to_lower c else c) # title_from True cs
      else c # title_from False cs)"

definition title :: "string \<Rightarrow> string" where
  "title s = title_from False s"

definition replace_char :: "char \<Rightarrow> char \<Rightarrow> string \<Rightarrow> string" where
  "replace_char a b s = map (\<lambda>c. if c = a then b else c) s"

definition friendly_name :: "string \<Rightarrow> string" where
  "friendly_name s = title (replace_char (CHR ''_'') (CHR '' '') s)"

text \<open>\<^verbatim>\<open>sep.join(parts)\<close>, \<^verbatim>\<open>s.strip(chars)\<close> and \<^verbatim>\<open>s.split(sep)\<close> for a
  one-character separator.\<close>

fun join :: "string \<Rightarrow> string list \<Rightarrow> string" where
  "join sep [] = []"
| "join sep [x] = x"
| "join sep (x # y # ys) = x @ sep @ join sep (y # ys)"

definition strip_chars :: "string \<Rightarrow> string \<Rightarrow> string" where
  "strip_chars cs s =
     rev (dropWhile (\<lambda>c. c \<in> set cs) (rev (dropWhile (\<lambda>c. c \<in> set cs) s)))"

fun split_on :: "char \<Rightarrow> string \<Rightarrow> string list" where
  "split_on sep [] = [[]]"
| "split_on sep (c # cs) =
     (if c = sep then [] # split_on sep cs
      else (case split_on sep cs of [] \<Rightarrow> [[c]] | w # ws \<Rightarrow> (c # w) # ws))"

text \<open>\<^verbatim>\<open>int(s)\<close> on a string: surrounding whitespace is dropped, one sign is allowed,
  and the digits may be separated by single underscores.\<close>

definition is_digit :: "char \<Rightarrow> bool" where
  "is_digit c = (48 \<le> (of_char c :: nat) \<and> (of_char c :: nat) \<le> 57)"

definition is_space :: "char \<Rightarrow> bool" where
  "is_space c = ((of_char c :: nat) = 32 \<or> 9 \<le> (of_char c :: nat) \<and> (of_char c :: nat) \<le> 13
                 \<or> 28 \<le> (of_char c :: nat) \<and> (of_char c :: nat) \<le> 31)"

fun int_digits :: "string \<Rightarrow> nat list option" where
  "int_digits [] = None"
| "int_digits [c] = (if is_digit c then Some [of_char c - 48] else None)"
| "int_digits (c # d # ds) =
     (if \<not> is_digit c then None
      else if d = CHR ''_'' then map_option ((#) (of_char c - 48)) (int_digits ds)
      else map_option ((#) (of_char c - 48)) (int_digits (d # ds)))"

definition digits_value :: "nat list \<Rightarrow> nat" where
  "digits_value ds = fold (\<lambda>d acc. 10 * acc + d) ds 0"

definition py_int :: "string \<Rightarrow> error + int" where
  "py_int s =
     (let t = rev (dropWhile is_space (rev (dropWhile is_space s)));
          (neg, body) = (case t of [] \<Rightarrow> (False, [])
                         | c # cs \<Rightarrow> if c = CHR ''-'' then (True, cs)
                                     else if c = CHR ''+'' then (False, cs) else (False, t))
      in case int_digits body of
           None \<Rightarrow> Inl (ValueError (BadIntLiteral s))
         | Some ds \<Rightarrow> Inr (if neg then - int (digits_value ds) else int (digits_value ds)))"

section \<open>Dictionary comprehensions\<close>

text \<open>
  \<^verbatim>\<open>{key(x): value(x) for x in xs if cond(x)}\<close>: for each element in order the
  condition is evaluated, then the key and the value, and the pair is stored. The first
  exception ends the comprehension.
\<close>

definition dict_comp ::
  "('a \<Rightarrow> error + bool) \<Rightarrow> ('a \<Rightarrow> error + 'k \<times> 'v) \<Rightarrow> 'a list \<Rightarrow> error + ('k, 'v) dict" where
  "dict_comp cond kv xs =
     foldE (\<lambda>x acc. bindE (cond x) (\<lambda>c.
              if c then bindE (kv x) (\<lambda>(k, v). Inr (AList.update k v acc)) else Inr acc))
       xs []"

text \<open>\<^verbatim>\<open>dict(pairs)\<close>.\<close>

definition dict_of :: "('k \<times> 'v) list \<Rightarrow> ('k, 'v) dict" where
  "dict_of kvs = fold (\<lambda>(k, v). AList.update k v) kvs []"

text \<open>
  Modelled from the spec: \<^verbatim>\<open>from_keys_in\<close> of \<^verbatim>\<open>idleon_saver.utility\<close> is not part
  of the sources at hand. The specification describes its use as ``items present, each
  true'': every given key that the table knows contributes the table's name for it,
  mapped to the given value.
\<close>

definition from_keys_in :: "('k \<rightharpoonup> 'n) \<Rightarrow> 'k list \<Rightarrow> 'v \<Rightarrow> ('n, 'v) dict" where
  "from_keys_in table keys v =
     fold (\<lambda>k acc. case table k of None \<Rightarrow> acc | Some n \<Rightarrow> AList.update n v acc) keys []"

section \<open>Derivation helpers\<close>

definition get_baseclass :: "int \<Rightarrow> error + int" where
  "get_baseclass which =
     (if 1 \<le> which \<and> which < 5 + 1 then Inr 1
      else (case find (\<lambda>base. base \<le> which \<and> which < base + 6 + 1) [7, 19, 31] of
              Some base \<Rightarrow> Inr base
            | None \<Rightarrow> Inl (ValueError (NoSuchClass which))))"

definition get_classname :: "refdata \<Rightarrow> int \<Rightarrow> error + string" where
  "get_classname rd which =
     bindE (list_getitem (class_names rd) which) (\<lambda>n. Inr (friendly_name n))"

definition get_starsign_from_index :: "refdata \<Rightarrow> int \<Rightarrow> error + string" where
  "get_starsign_from_index rd i =
     bindE (list_getitem (starsign_names rd) i) (\<lambda>n. getitem SKey (starsign_ids rd) n)"

definition get_cardtier :: "refdata \<Rightarrow> string \<Rightarrow> int \<Rightarrow> error + int" where
  "get_cardtier rd name level =
     bindE (getitem SKey (card_reqs rd) name) (\<lambda>req. Inr (
       if level = 0 then 0
       else if level \<ge> req * 9 then 4
       else if level \<ge> req * 4 then 3
       else if level \<ge> req then 2
       else 1))"

definition get_pouchsize :: "refdata \<Rightarrow> string \<Rightarrow> int \<Rightarrow> error + string" where
  "get_pouchsize rd itemtype stacksize =
     (if stacksize = 25 \<and> itemtype = ''bCraft'' then Inr ''Mini''
      else if stacksize = 25 \<and> itemtype = ''Foods'' then Inr ''Miniscule''
      else getitem IKey (pouch_sizes rd) stacksize)"

definition get_pouches :: "refdata \<Rightarrow> (string, int) dict \<Rightarrow> error + (string, bool) dict" where
  "get_pouches rd carrycaps =
     dict_comp (\<lambda>(itemtype, stacksize). Inr (stacksize > 10))
       (\<lambda>(itemtype, stacksize).
          bindE (get_pouchsize rd itemtype stacksize) (\<lambda>qualifier.
          bindE (getitem SKey (pouch_names rd) itemtype) (\<lambda>pname.
          Inr (join '' '' [qualifier, pname, ''Pouch''], True))))
       carrycaps"

section \<open>The cog board: empty slots\<close>

record empties_row =
  empties_x :: nat
  empties_y :: nat

text \<open>
  \<^verbatim>\<open>get_empties\<close>: the length check, then the two nested \<^verbatim>\<open>range\<close> loops over the
  8 rows and 12 columns, appending a row for each slot that holds \<^verbatim>\<open>"Blank"\<close>.
\<close>

definition get_empties :: "string list \<Rightarrow> error + empties_row list" where
  "get_empties cogs =
     (if length cogs < 96 then Inl (ValueError (ShortCogList (length cogs)))
      else Inr (concat (map (\<lambda>y. concat (map (\<lambda>x.
              (let i = y * 12 + x
               in if cogs ! i = ''Blank'' then [\<lparr>empties_x = x, empties_y = y\<rparr>] else []))
            [0..<12])) [0..<8])))"

text \<open>The coordinates the specification gives for a linear position: column
  \<open>position mod 12\<close>, row \<open>position \<div> 12\<close>.\<close>

definition slot_coord :: "nat \<Rightarrow> empties_row" where
  "slot_coord i = \<lparr>empties_x = i mod 12, empties_y = i div 12\<rparr>"


section \<open>The cog board: cog rows\<close>

definition get_cog_type :: "refdata \<Rightarrow> string \<Rightarrow> string option" where
  "get_cog_type rd name =
     (if name = ''Blank'' then None
      else if startswith name ''Player_'' then Some ''Character''
      else if name = ''CogY'' then Some ''Yang_Cog''
      else if startswith name ''CogZ'' then Some ''Omni_Cog''
      else (case find (\<lambda>(direction, cog_type). endswith name direction) (cog_type_map rd) of
              Some (direction, cog_type) \<Rightarrow> Some (cog_type @ ''_Cog'')
            | None \<Rightarrow> Some ''Cog''))"

text \<open>
  \<^verbatim>\<open>cog[key] / 100\<close> is Python's true division: floating-point arithmetic on a
  number (an integer too large for a float raises \<^verbatim>\<open>OverflowError\<close>), a
  \<^verbatim>\<open>TypeError\<close> on a value that is not a number. Floating-point arithmetic is not
  modelled here. The division is the parameter \<open>dv\<close> of the functions below, a function
  from the value and the divisor to the quotient or the exception, and nothing is
  assumed about it.
\<close>

type_synonym truediv = "jv \<Rightarrow> int \<Rightarrow> error + jv"

text \<open>One pass of the loop over \<^verbatim>\<open>cog_datas_map\<close>: a key the cog lacks is the
  caught \<^verbatim>\<open>KeyError\<close> and leaves a blank cell; an exception of the division is not
  caught.\<close>

definition cog_field :: "truediv \<Rightarrow> refdata \<Rightarrow> (string \<rightharpoonup> jv) \<Rightarrow> string \<times> string \<Rightarrow>
    (string, jv) dict \<Rightarrow> error + (string, jv) dict" where
  "cog_field dv rd cog = (\<lambda>(key, field) data.
     (case cog key of
        None \<Rightarrow> Inr (AList.update field (JStr []) data)
      | Some v \<Rightarrow>
          bindE (if key \<in> set (cog_boosts rd) then dv v 100 else Inr v)
            (\<lambda>cell. Inr (AList.update field cell data))))"

definition get_cog_data ::
  "truediv \<Rightarrow> refdata \<Rightarrow> (string \<rightharpoonup> jv) \<Rightarrow> string \<Rightarrow> error + (string, jv) dict option" where
  "get_cog_data dv rd cog name =
     (case get_cog_type rd name of
        None \<Rightarrow> Inr None
      | Some cog_type \<Rightarrow>
          (let data = AList.update ''cog type'' (JStr cog_type) [];
               data = AList.update ''name''
                        (JStr (if cog_type = ''Character'' then removeprefix name ''Player_''
                               else [])) data
           in bindE (foldE (cog_field dv rd cog) (cog_datas_map rd) data)
                (\<lambda>data. Inr (Some data))))"

section \<open>The exporter\<close>

text \<open>The attributes of \<^verbatim>\<open>Exporter\<close> that the builders below read.\<close>

record exporter =
  names :: "string list"
  classes :: "int list"
  stats :: "int list list"
  starsigns_equipped :: "string list"
  skill_levels :: "int list list"
  bags_used :: "(string, jv) dict list"
  carrycaps :: "(string, int) dict list"
  starsigns_prog :: "(string option \<times> int) list"
  cards :: "(string, int) dict"
  cog_map :: "(string \<rightharpoonup> jv) list"
  cog_order :: "string list"

record cogstruction =
  cog_datas :: "(string, jv) dict list"
  empties_datas :: "empties_row list"

text \<open>\<^verbatim>\<open>list(filter(None, starmap(get_cog_data, zip(cog_map, cog_order))))\<close>: a row
  always has the key \<^verbatim>\<open>cog type\<close>, so the filter drops exactly the \<^verbatim>\<open>None\<close>s.\<close>

definition cog_data_rows ::
  "truediv \<Rightarrow> refdata \<Rightarrow> exporter \<Rightarrow> error + (string, jv) dict list" where
  "cog_data_rows dv rd self =
     bindE (mapE (\<lambda>(cog, name). get_cog_data dv rd cog name)
              (zip (cog_map self) (cog_order self)))
       (\<lambda>rows. Inr (List.map_filter id rows))"

definition to_cogstruction :: "truediv \<Rightarrow> refdata \<Rightarrow> exporter \<Rightarrow> error + cogstruction" where
  "to_cogstruction dv rd self =
     bindE (cog_data_rows dv rd self) (\<lambda>rows.
     bindE (get_empties (cog_order self)) (\<lambda>empties.
     Inr \<lparr>cog_datas = rows, empties_datas = empties\<rparr>))"

definition ascii_lowercase :: string where
  "ascii_lowercase = ''abcdefghijklmnopqrstuvwxyz''"

definition char_codes :: string where
  "char_codes = CHR ''_'' # ascii_lowercase"

definition char_map :: "exporter \<Rightarrow> (string, char) dict" where
  "char_map self = dict_of (zip (names self) char_codes)"

definition get_cards :: "refdata \<Rightarrow> exporter \<Rightarrow> error + (string, int) dict" where
  "get_cards rd self =
     dict_comp (\<lambda>(name, level). Inr (level > 0))
       (\<lambda>(name, level).
          bindE (getitem SKey (monster_names rd) name) (\<lambda>display.
          bindE (get_cardtier rd name level) (\<lambda>tier. Inr (display, tier))))
       (cards self)"

text \<open>\<^verbatim>\<open>chars or ""\<close>: a null completion string counts as the empty one.\<close>

definition chars_or_empty :: "string option \<Rightarrow> string" where
  "chars_or_empty chars = (case chars of None \<Rightarrow> [] | Some s \<Rightarrow> s)"

definition get_player_constellations ::
  "refdata \<Rightarrow> exporter \<Rightarrow> string \<Rightarrow> error + (string, bool) dict" where
  "get_player_constellations rd self charname =
     dict_comp
       (\<lambda>(i, (chars, completed)).
          bindE (getitem SKey (map_of (char_map self)) charname)
            (\<lambda>code. Inr (code \<in> set (chars_or_empty chars))))
       (\<lambda>(i, (chars, completed)).
          bindE (list_getitem (constellation_names rd) (int i)) (\<lambda>cname. Inr (cname, True)))
       (enumerate 0 (starsigns_prog self))"

definition parse_player_starsigns :: "refdata \<Rightarrow> string \<Rightarrow> error + (string, bool) dict" where
  "parse_player_starsigns rd starsign_codes =
     dict_comp (\<lambda>k. Inr True)
       (\<lambda>k. bindE (py_int k) (\<lambda>i.
             bindE (get_starsign_from_index rd i) (\<lambda>sign. Inr (sign, True))))
       (split_on (CHR '','') (strip_chars '',_'' starsign_codes))"

record char_record =
  ch_name :: string
  ch_class :: string
  ch_level :: int
  ch_constellations :: "(string, bool) dict"
  ch_starSigns :: "(string, bool) dict"
  ch_skills :: "(string, int) dict"
  ch_items :: "(string, bool) dict"

text \<open>\<^verbatim>\<open>build_char\<close>: the fields are evaluated in the order of the dictionary display,
  so the first failing one decides the exception.\<close>

definition build_char :: "refdata \<Rightarrow> exporter \<Rightarrow> string \<Rightarrow> int \<Rightarrow> int list \<Rightarrow> string \<Rightarrow>
    int list \<Rightarrow> (string, jv) dict \<Rightarrow> (string, int) dict \<Rightarrow> error + char_record" where
  "build_char rd self name klass stats' starsigns skills bags carrycaps' =
     bindE (get_classname rd klass) (\<lambda>cls.
     bindE (list_getitem stats' 4) (\<lambda>level.
     bindE (get_player_constellations rd self name) (\<lambda>constellations.
     bindE (parse_player_starsigns rd starsigns) (\<lambda>signs.
     bindE (get_pouches rd carrycaps') (\<lambda>pouches.
     Inr \<lparr>ch_name = name, ch_class = cls, ch_level = level,
          ch_constellations = constellations, ch_starSigns = signs,
          ch_skills = dict_of (drop 1 (zip (skill_names rd) skills)),
          ch_items = dict_union (from_keys_in (bag_map_inv rd) (map fst bags) True) pouches\<rparr>)))))"

definition get_chars :: "refdata \<Rightarrow> exporter \<Rightarrow> error + char_record list" where
  "get_chars rd self =
     mapE (\<lambda>(name, klass, stats', starsigns, skills, bags, carrycaps').
             build_char rd self name klass stats' starsigns skills bags carrycaps')
       (zip (names self) (zip (classes self) (zip (stats self) (zip (starsigns_equipped self)
         (zip (skill_levels self) (zip (bags_used self) (carrycaps self)))))))"

section \<open>The specification's formulas\<close>

text \<open>The tier of a card as the specification words it.\<close>

definition spec_tier :: "int \<Rightarrow> int \<Rightarrow> int" where
  "spec_tier level requirement =
     (if level = 0 then 0
      else if level \<ge> 9 * requirement then 4
      else if level \<ge> 4 * requirement then 3
      else if level \<ge> requirement then 2
      else 1)"

text \<open>The name of a pouch as the specification words it: size qualifier, category
  display name and the literal \<^verbatim>\<open>Pouch\<close>, separated by spaces.\<close>

definition spec_pouch_qualifier :: "refdata \<Rightarrow> string \<Rightarrow> int \<Rightarrow> string" where
  "spec_pouch_qualifier rd category stacksize =
     (if category = ''bCraft'' \<and> stacksize = 25 then ''Mini''
      else if category = ''Foods'' \<and> stacksize = 25 then ''Miniscule''
      else the (pouch_sizes rd stacksize))"

definition spec_pouch_name :: "refdata \<Rightarrow> string \<Rightarrow> int \<Rightarrow> string" where
  "spec_pouch_name rd category stacksize =
     spec_pouch_qualifier rd category stacksize @ '' '' @ the (pouch_names rd category) @ '' Pouch''"

text \<open>The cell that the loop of \<^verbatim>\<open>get_cog_data\<close> stores for a key when the
  division of its boost value, if it has one, returns.\<close>

definition cog_cell :: "truediv \<Rightarrow> refdata \<Rightarrow> (string \<rightharpoonup> jv) \<Rightarrow> string \<Rightarrow> jv" where
  "cog_cell dv rd cog key =
     (case cog key of
        None \<Rightarrow> JStr []
      | Some v \<Rightarrow> if key \<in> set (cog_boosts rd)
                  then (case dv v 100 of Inr c \<Rightarrow> c | Inl e \<Rightarrow> v) else v)"

section \<open>Sample data\<close>

text \<open>
  A small set of reference tables in the shape of the game's, and two exporters: one
  with two players and a full cog board, one with 28 players whose constellation
  progress is a parameter. They serve as concrete inputs below.
\<close>

text \<open>The only number divided in the samples is 25: 25 / 100 is the double 0.25, which
  is exactly one quarter. On a string the division is a \<^verbatim>\<open>TypeError\<close>. The sample
  division answers these and is applied to nothing else.\<close>

definition sample_div :: truediv where
  "sample_div v d =
     (if v = JNum 25 \<and> d = 100 then Inr (JNum (1 / 4)) else Inl TypeError)"

definition sample_rd :: refdata where
  "sample_rd = \<lparr>
     class_names = [''0'', ''BEGINNER'', ''JOURNEYMAN'', ''MAESTRO'', ''VIRTUOSO'',
                    ''INFINILYTE'', ''RAGE_BASICS'', ''WARRIOR'', ''BARBARIAN'', ''SQUIRE''],
     card_reqs = map_of [(''mushG'', 5), (''frogG'', 6), (''beanG'', 7)],
     monster_names = map_of [(''mushG'', ''Green Mushroom''), (''frogG'', ''Frog''),
                             (''beanG'', ''Bored Bean'')],
     pouch_sizes = map_of [(25, ''Miniature''), (50, ''Cramped''), (100, ''Small'')],
     pouch_names = map_of [(''bCraft'', ''Materials''), (''Foods'', ''Food''),
                           (''Mining'', ''Mining'')],
     cog_type_map = [(''_up'', ''Up''), (''_do'', ''Down''), (''_le'', ''Left''),
                     (''_ri'', ''Right'')],
     cog_datas_map = [(''a'', ''build_rate''), (''e'', ''build_rate_boost''),
                      (''h'', ''boost_shape'')],
     cog_boosts = [''e''],
     constellation_names = [''A-1'', ''A-2'', ''A-3''],
     starsign_names = [''The_Buff_Guy'', ''Flexo_Bendo''],
     starsign_ids = map_of [(''The_Buff_Guy'', ''The Buff Guy''),
                            (''Flexo_Bendo'', ''Flexo Bendo'')],
     skill_names = [''Character'', ''Mining'', ''Smithing''],
     bag_map_inv = map_of [(''0'', ''Inventory Bag A''), (''1'', ''Inventory Bag B'')]
   \<rparr>"

definition sample_self :: exporter where
  "sample_self = \<lparr>
     names = [''Alice'', ''Bob''],
     classes = [2, 8],
     stats = [[1, 2, 3, 4, 30], [5, 6, 7, 8, 12]],
     starsigns_equipped = [''0,1,_'', ''1,''],
     skill_levels = [[30, 10, 4], [12, 3, 1]],
     bags_used = [[(''0'', JNum 1), (''7'', JNum 1)], [(''1'', JNum 1)]],
     carrycaps = [[(''bCraft'', 25), (''Foods'', 10), (''Mining'', 50)], [(''Foods'', 25)]],
     starsigns_prog = [(Some ''_a'', 1), (None, 0), (Some ''a'', 1)],
     cards = [(''mushG'', 23), (''frogG'', 0), (''beanG'', 3)],
     cog_map = [map_of [(''a'', JNum 12), (''e'', JNum 25), (''h'', JStr ''row'')], Map.empty,
                Map.empty] @ replicate 93 Map.empty,
     cog_order = [''CogY'', ''Player_Alice'', ''CogZfoo''] @ replicate 93 ''Blank''
   \<rparr>"

definition crowd :: "(string option \<times> int) list \<Rightarrow> exporter" where
  "crowd prog = \<lparr>
     names = map (\<lambda>c. [CHR ''P'', c]) ''0123456789abcdefghijklmnopqr'',
     classes = replicate 28 1,
     stats = replicate 28 [0, 0, 0, 0, 5],
     starsigns_equipped = replicate 28 ''0,'',
     skill_levels = replicate 28 [],
     bags_used = replicate 28 [],
     carrycaps = replicate 28 [],
     starsigns_prog = prog,
     cards = [],
     cog_map = [],
     cog_order = []
   \<rparr>"

section \<open>Sequencing and dictionaries\<close>

lemma bindE_simps [simp]:
  "bindE (Inl e) f = Inl e"
  "bindE (Inr x) f = f x"
  by (simp_all add: bindE_def)

lemma bindE_Inr_iff: "bindE m f = Inr y \<longleftrightarrow> (\<exists>x. m = Inr x \<and> f x = Inr y)"
  by (cases m) simp_all


lemma update_fresh: "k \<notin> fst ` set al \<Longrightarrow> AList.update k v al = al @ [(k, v)]"
  by (induction al) auto

lemma fold_update_keys:
  "fst ` set (fold (\<lambda>(k, v). AList.update k v) kvs acc) = fst ` set acc \<union> fst ` set kvs"
proof (induction kvs arbitrary: acc)
  case Nil
  show ?case by simp
next
  case (Cons p kvs)
  obtain k v where p: "p = (k, v)" by (cases p)
  have "fst ` set (fold (\<lambda>(k, v). AList.update k v) kvs (AList.update k v acc))
          = fst ` set (AList.update k v acc) \<union> fst ` set kvs"
    by (rule Cons.IH)
  also have "\<dots> = ({k} \<union> fst ` set acc) \<union> fst ` set kvs"
    by (simp only: dom_update)
  finally show ?case by (simp add: p Un_commute Un_left_commute)
qed

lemma fold_update_distinct:
  "distinct (map fst acc) \<Longrightarrow> distinct (map fst (fold (\<lambda>(k, v). AList.update k v) kvs acc))"
  by (induction kvs arbitrary: acc) (auto simp: distinct_update)

lemma fold_update_fresh:
  "distinct (map fst kvs) \<Longrightarrow> fst ` set kvs \<inter> fst ` set acc = {} \<Longrightarrow>
     fold (\<lambda>(k, v). AList.update k v) kvs acc = acc @ kvs"
proof (induction kvs arbitrary: acc)
  case Nil
  show ?case by simp
next
  case (Cons p kvs)
  obtain k v where p: "p = (k, v)" by (cases p)
  have fresh: "k \<notin> fst ` set acc" using Cons.prems(2) p by auto
  have "fst ` set kvs \<inter> fst ` set (acc @ [(k, v)]) = {}"
    using Cons.prems p by auto
  moreover have "distinct (map fst kvs)" using Cons.prems(1) by simp
  ultimately have "fold (\<lambda>(k, v). AList.update k v) kvs (acc @ [(k, v)]) = (acc @ [(k, v)]) @ kvs"
    by (rule Cons.IH [rotated])
  then show ?case using fresh p by (simp add: update_fresh)
qed

lemma fold_update_map_of:
  "map_of (fold (\<lambda>(k, v). AList.update k v) kvs acc) = map_of acc ++ map_of (rev kvs)"
proof (induction kvs arbitrary: acc)
  case Nil
  show ?case by simp
next
  case (Cons p kvs)
  obtain k v where p: "p = (k, v)" by (cases p)
  show ?case
    by (simp add: p Cons.IH update_conv' map_add_upd [symmetric] del: map_add_upd)
       (simp add: map_add_def fun_eq_iff split: option.splits)
qed

lemma dict_of_keys: "fst ` set (dict_of kvs) = fst ` set kvs"
  by (simp add: dict_of_def fold_update_keys)

lemma dict_of_distinct: "distinct (map fst kvs) \<Longrightarrow> dict_of kvs = kvs"
  using fold_update_fresh [of kvs "[]"] by (simp add: dict_of_def)

lemma dict_union_keys: "fst ` set (dict_union a b) = fst ` set a \<union> fst ` set b"
  by (simp add: dict_union_def fold_update_keys)

lemma dict_union_lookup:
  "distinct (map fst b) \<Longrightarrow> (k, v) \<in> set b \<Longrightarrow> map_of (dict_union a b) k = Some v"
proof -
  assume d: "distinct (map fst b)" and m: "(k, v) \<in> set b"
  have "distinct (map fst (rev b))" using d by (simp add: rev_map [symmetric])
  moreover have "(k, v) \<in> set (rev b)" using m by simp
  ultimately have "map_of (rev b) k = Some v" by (rule map_of_is_SomeI)
  then show ?thesis by (simp add: dict_union_def fold_update_map_of map_add_Some_iff)
qed

lemma dict_comp_fold:
  assumes "\<And>x. x \<in> set xs \<Longrightarrow> cond x = Inr (c x)"
      and "\<And>x. x \<in> set xs \<Longrightarrow> c x \<Longrightarrow> kv x = Inr (e x)"
  shows "foldE (\<lambda>x acc. bindE (cond x) (\<lambda>c.
              if c then bindE (kv x) (\<lambda>(k, v). Inr (AList.update k v acc)) else Inr acc)) xs acc
         = Inr (fold (\<lambda>(k, v). AList.update k v) (map e (filter c xs)) acc)"
  using assms
proof (induction xs arbitrary: acc)
  case Nil
  show ?case by simp
next
  case (Cons x xs)
  have c: "cond x = Inr (c x)" by (rule Cons.prems(1)) simp
  have k: "c x \<Longrightarrow> kv x = Inr (e x)" by (rule Cons.prems(2)) simp_all
  have ih: "foldE (\<lambda>x acc. bindE (cond x) (\<lambda>c.
              if c then bindE (kv x) (\<lambda>(k, v). Inr (AList.update k v acc)) else Inr acc)) xs a
         = Inr (fold (\<lambda>(k, v). AList.update k v) (map e (filter c xs)) a)" for a
    by (rule Cons.IH) (simp_all add: Cons.prems)
  show ?case
  proof (cases "c x")
    case True
    then show ?thesis using c k ih by (cases "e x") simp
  next
    case False
    then show ?thesis using c ih by simp
  qed
qed

lemma dict_comp_ok:
  assumes "\<And>x. x \<in> set xs \<Longrightarrow> cond x = Inr (c x)"
      and "\<And>x. x \<in> set xs \<Longrightarrow> c x \<Longrightarrow> kv x = Inr (e x)"
  shows "dict_comp cond kv xs = Inr (dict_of (map e (filter c xs)))"
  unfolding dict_comp_def dict_of_def using assms by (rule dict_comp_fold)

lemma dict_comp_first_cond_fails:
  "cond x = Inl err \<Longrightarrow> dict_comp cond kv (x # xs) = Inl err"
  by (simp add: dict_comp_def)

lemma dict_comp_Nil: "dict_comp cond kv [] = Inr []"
  by (simp add: dict_comp_def)

lemma mapE_ok: "(\<And>x. x \<in> set xs \<Longrightarrow> f x = Inr (g x)) \<Longrightarrow> mapE f xs = Inr (map g xs)"
  by (induction xs) simp_all

lemma mapE_stops:
  "(\<And>x. x \<in> set xs \<Longrightarrow> \<exists>y. f x = Inr y) \<Longrightarrow> f x = Inl e \<Longrightarrow> mapE f (xs @ x # rest) = Inl e"
proof (induction xs)
  case Nil
  then show ?case by simp
next
  case (Cons a xs)
  obtain y where "f a = Inr y" using Cons.prems(1) [of a] by auto
  moreover have "mapE f (xs @ x # rest) = Inl e"
    by (rule Cons.IH) (simp_all add: Cons.prems)
  ultimately show ?case by simp
qed

lemma mapE_length: "mapE f xs = Inr ys \<Longrightarrow> length ys = length xs"
  by (induction xs arbitrary: ys) (auto split: sum.splits)

section \<open>The empty slots of the board\<close>

lemma map_upt_shift: "map f [a..<a + w] = map (\<lambda>x. f (a + x)) [0..<w]"
  by (induction w) simp_all

lemma map_cong_upt: "(\<And>x. x < n \<Longrightarrow> f x = g x) \<Longrightarrow> map f [0..<n] = map g [0..<n]"
  by (rule map_cong) simp_all

lemma concat_rows_flat:
  "concat (map (\<lambda>y. concat (map (\<lambda>x. f (y * w + x)) [0..<w])) [0..<h])
     = concat (map f [0..<h * w])"
proof (induction h)
  case 0
  show ?case by simp
next
  case (Suc h)
  have split: "[0..<h * w + w] = [0..<h * w] @ [h * w..<h * w + w]"
    by (rule upt_add_eq_append) simp
  have shift: "map f [h * w..<h * w + w] = map (\<lambda>x. f (h * w + x)) [0..<w]"
    by (rule map_upt_shift)
  have "concat (map f [0..<Suc h * w]) = concat (map f [0..<h * w + w])"
    by (simp add: add.commute)
  also have "\<dots> = concat (map f [0..<h * w]) @ concat (map f [h * w..<h * w + w])"
    by (simp only: split map_append concat_append)
  also have "\<dots> = concat (map f [0..<h * w]) @ concat (map (\<lambda>x. f (h * w + x)) [0..<w])"
    by (simp only: shift)
  finally show ?case using Suc by simp
qed

lemma concat_if_singleton:
  "concat (map (\<lambda>i. if P i then [g i] else []) xs) = map g (filter P xs)"
  by (induction xs) simp_all

lemma slot_coord_at: "x < 12 \<Longrightarrow> slot_coord (y * 12 + x) = \<lparr>empties_x = x, empties_y = y\<rparr>"
  by (simp add: slot_coord_def)

lemma get_empties_flat:
  assumes "96 \<le> length cogs"
  shows "get_empties cogs = Inr (map slot_coord (filter (\<lambda>i. cogs ! i = ''Blank'') [0..<96]))"
proof -
  let ?f = "\<lambda>i. if cogs ! i = ''Blank'' then [slot_coord i] else []"
  have inner: "concat (map (\<lambda>x.
              (let i = y * 12 + x
               in if cogs ! i = ''Blank'' then [\<lparr>empties_x = x, empties_y = y\<rparr>] else []))
            [0..<12]) = concat (map (\<lambda>x. ?f (y * 12 + x)) [0..<12])" for y
    by (rule arg_cong [where f = concat], rule map_cong_upt) (simp add: slot_coord_at Let_def)
  have e: "(96::nat) = 8 * 12" by simp
  have "concat (map (\<lambda>y. concat (map (\<lambda>x. ?f (y * 12 + x)) [0..<12])) [0..<8])
      = concat (map ?f [0..<8 * 12])"
    by (rule concat_rows_flat)
  also have "\<dots> = concat (map ?f [0..<96])" by (simp only: e)
  also have "\<dots> = map slot_coord (filter (\<lambda>i. cogs ! i = ''Blank'') [0..<96])"
    by (rule concat_if_singleton)
  finally have body: "concat (map (\<lambda>y. concat (map (\<lambda>x. ?f (y * 12 + x)) [0..<12])) [0..<8])
      = map slot_coord (filter (\<lambda>i. cogs ! i = ''Blank'') [0..<96])" .
  have "\<not> length cogs < 96" using assms by simp
  then show ?thesis unfolding get_empties_def inner body by (simp only: if_False)
qed

lemma inj_slot_coord: "inj slot_coord"
proof (rule injI)
  fix i j assume "slot_coord i = slot_coord j"
  then have "i mod 12 = j mod 12" "i div 12 = j div 12"
    by (simp_all add: slot_coord_def)
  then show "i = j" by (metis div_mult_mod_eq)
qed

lemma slot_coord_grid:
  "slot_coord ` {0..<96} = {r::empties_row. empties_x r < 12 \<and> empties_y r < 8}"
proof (rule set_eqI, rule iffI)
  fix r assume "r \<in> slot_coord ` {0..<96}"
  then show "r \<in> {r::empties_row. empties_x r < 12 \<and> empties_y r < 8}"
    by (auto simp: slot_coord_def)
next
  fix r assume "r \<in> {r::empties_row. empties_x r < 12 \<and> empties_y r < 8}"
  then have b: "empties_x r < 12" "empties_y r < 8" by simp_all
  then have "slot_coord (empties_y r * 12 + empties_x r) = r"
    by (simp add: slot_coord_def)
  moreover have "empties_y r * 12 + empties_x r < 96" using b by simp
  ultimately show "r \<in> slot_coord ` {0..<96}"
    by (metis atLeastLessThan_iff imageI le0)
qed

lemma set_map_filter_upt:
  "set (map g (filter P [0..<n])) = {r. \<exists>i < n. P i \<and> r = g i}"
  by auto

lemma filter_upt_all: "(\<forall>i < n. P i) \<Longrightarrow> filter P [0..<n] = [0..<n]"
  by (simp add: filter_id_conv)

lemma distinct_map_filter_upt: "inj g \<Longrightarrow> distinct (map g (filter P [0..<n]))"
  by (auto simp: distinct_map intro: inj_on_subset)

text \<open>
  Claim C5. On a board of at least 96 slots \<^verbatim>\<open>get_empties\<close> returns, in row-major
  order, exactly the coordinates \<open>(position mod 12, position \<div> 12)\<close> of the blank
  positions of the 8 by 12 grid (positions 0 to 95), each once, so with x below 12 and y
  below 8; when all 96 grid positions are blank the rows are all 96 coordinate pairs,
  each exactly once.
\<close>

theorem get_empties_rows:
  assumes "96 \<le> length cogs"
  shows "\<exists>rows. get_empties cogs = Inr rows
     \<and> rows = map slot_coord (filter (\<lambda>i. cogs ! i = ''Blank'') [0..<96])
     \<and> distinct rows
     \<and> set rows = {r. \<exists>i < 96. cogs ! i = ''Blank'' \<and> r = slot_coord i}
     \<and> ((\<forall>i < 96. cogs ! i = ''Blank'') \<longrightarrow>
          length rows = 96 \<and> set rows = {r::empties_row. empties_x r < 12 \<and> empties_y r < 8})"
proof -
  let ?rows = "map slot_coord (filter (\<lambda>i. cogs ! i = ''Blank'') [0..<96])"
  have d: "distinct ?rows"
    by (rule distinct_map_filter_upt [OF inj_slot_coord])
  have s: "set ?rows = {r. \<exists>i < 96. cogs ! i = ''Blank'' \<and> r = slot_coord i}"
    by (rule set_map_filter_upt)
  have a: "length ?rows = 96 \<and> set ?rows = {r::empties_row. empties_x r < 12 \<and> empties_y r < 8}"
    if "\<forall>i < 96. cogs ! i = ''Blank''"
  proof -
    have "filter (\<lambda>i. cogs ! i = ''Blank'') [0..<96] = [0..<96]"
      using that by (rule filter_upt_all)
    then show ?thesis using slot_coord_grid by simp
  qed
  show ?thesis using get_empties_flat [OF assms] d s a by blast
qed

theorem get_empties_rows_witness:
  "96 \<le> length (replicate 96 ''Blank'')
     \<and> (\<exists>rows. get_empties (replicate 96 ''Blank'') = Inr rows
          \<and> distinct rows \<and> length rows = 96
          \<and> set rows = {r::empties_row. empties_x r < 12 \<and> empties_y r < 8})"
proof -
  have l: "96 \<le> length (replicate 96 ''Blank'')" by simp
  have b: "\<forall>i < 96. replicate 96 ''Blank'' ! i = ''Blank''" by simp
  show ?thesis using get_empties_rows [OF l] b l by blast
qed

section \<open>Cog classification\<close>

lemma cog_suffix_not_character: "ct @ ''_Cog'' \<noteq> ''Character''"
proof
  assume "ct @ ''_Cog'' = ''Character''"
  then have "last (ct @ ''_Cog'') = last ''Character''" by (rule arg_cong)
  then show False by simp
qed

lemma get_cog_type_character:
  "get_cog_type rd name = Some t \<Longrightarrow> (t = ''Character'') = startswith name ''Player_''"
  by (auto simp: get_cog_type_def cog_suffix_not_character split: if_splits option.splits)

lemma get_cog_type_None: "(get_cog_type rd name = None) = (name = ''Blank'')"
  by (auto simp: get_cog_type_def split: option.splits)

lemma get_cog_data_None_iff:
  "get_cog_data dv rd cog name = Inr y \<Longrightarrow> (y = None) = (name = ''Blank'')"
  using get_cog_type_None [of rd name]
  by (auto simp: get_cog_data_def Let_def bindE_Inr_iff split: option.splits)

lemma find_first:
  "i < length m \<Longrightarrow> P (m ! i) \<Longrightarrow> \<forall>j < i. \<not> P (m ! j) \<Longrightarrow> find P m = Some (m ! i)"
proof (induction m arbitrary: i)
  case Nil
  then show ?case by simp
next
  case (Cons a m)
  show ?case
  proof (cases i)
    case 0
    then show ?thesis using Cons.prems by simp
  next
    case (Suc k)
    have "\<not> P a" using Cons.prems(3) Suc by auto
    moreover have "find P m = Some (m ! k)"
    proof (rule Cons.IH)
      show "k < length m" using Cons.prems(1) Suc by simp
      show "P (m ! k)" using Cons.prems(2) Suc by simp
      show "\<forall>j < k. \<not> P (m ! j)" using Cons.prems(3) Suc by auto
    qed
    ultimately show ?thesis using Suc by simp
  qed
qed

lemma cog_rows_count:
  "mapE (\<lambda>(cog, name). get_cog_data dv rd cog name) ps = Inr rs \<Longrightarrow>
     length (List.map_filter id rs) = length (filter (\<lambda>n. n \<noteq> ''Blank'') (map snd ps))"
proof (induction ps arbitrary: rs)
  case Nil
  then show ?case by (simp add: List.map_filter_simps)
next
  case (Cons p ps)
  obtain cog name where p: "p = (cog, name)" by (cases p)
  from Cons.prems obtain y ys where y: "get_cog_data dv rd cog name = Inr y"
    and ys: "mapE (\<lambda>(cog, name). get_cog_data dv rd cog name) ps = Inr ys" and rs: "rs = y # ys"
    by (auto simp: p split: sum.splits)
  have "(y = None) = (name = ''Blank'')" using y by (rule get_cog_data_None_iff)
  then show ?case using Cons.IH [OF ys] by (cases y) (simp_all add: rs p List.map_filter_simps)
qed

text \<open>
  Claim C3. \<^verbatim>\<open>get_cog_type\<close> classifies a name in priority order: \<^verbatim>\<open>Blank\<close>, and
  only it, has no type, and its cog data is \<^verbatim>\<open>None\<close>; a name starting with
  \<^verbatim>\<open>Player_\<close> is a \<^verbatim>\<open>Character\<close>; the name \<^verbatim>\<open>CogY\<close> is the \<^verbatim>\<open>Yang_Cog\<close>; a
  name starting with \<^verbatim>\<open>CogZ\<close> is the \<^verbatim>\<open>Omni_Cog\<close>; otherwise the first entry of
  the direction table whose suffix ends the name gives \<^verbatim>\<open>{direction}_Cog\<close>, and a
  name that no suffix ends is a plain \<^verbatim>\<open>Cog\<close>. The cog rows of \<^verbatim>\<open>to_cogstruction\<close>
  are as many as the paired names that are not \<^verbatim>\<open>Blank\<close>.
\<close>

theorem cog_classification:
  "(get_cog_type rd name = None \<longleftrightarrow> name = ''Blank'')
   \<and> get_cog_data dv rd cog ''Blank'' = Inr None
   \<and> (name \<noteq> ''Blank'' \<longrightarrow> startswith name ''Player_'' \<longrightarrow>
        get_cog_type rd name = Some ''Character'')
   \<and> (name = ''CogY'' \<longrightarrow> get_cog_type rd name = Some ''Yang_Cog'')
   \<and> (\<not> startswith name ''Player_'' \<longrightarrow> startswith name ''CogZ'' \<longrightarrow>
        get_cog_type rd name = Some ''Omni_Cog'')
   \<and> (name \<noteq> ''Blank'' \<longrightarrow> \<not> startswith name ''Player_'' \<longrightarrow> name \<noteq> ''CogY'' \<longrightarrow>
        \<not> startswith name ''CogZ'' \<longrightarrow>
          (\<forall>i < length (cog_type_map rd).
             endswith name (fst (cog_type_map rd ! i))
               \<and> (\<forall>j < i. \<not> endswith name (fst (cog_type_map rd ! j)))
             \<longrightarrow> get_cog_type rd name = Some (snd (cog_type_map rd ! i) @ ''_Cog''))
        \<and> ((\<forall>(direction, cog_type) \<in> set (cog_type_map rd). \<not> endswith name direction)
             \<longrightarrow> get_cog_type rd name = Some ''Cog''))
   \<and> (\<forall>out. to_cogstruction dv rd self = Inr out \<longrightarrow>
        length (cog_datas out)
          = length (filter (\<lambda>n. n \<noteq> ''Blank'') (map snd (zip (cog_map self) (cog_order self)))))"
proof -
  have c1: "get_cog_type rd name = None \<longleftrightarrow> name = ''Blank''" by (rule get_cog_type_None)
  have c2: "get_cog_data dv rd cog ''Blank'' = Inr None"
    by (simp add: get_cog_data_def get_cog_type_def)
  have c3: "get_cog_type rd name = Some ''Character''"
    if "name \<noteq> ''Blank''" "startswith name ''Player_''"
    using that by (simp add: get_cog_type_def)
  have c4: "get_cog_type rd name = Some ''Yang_Cog''" if "name = ''CogY''"
    using that by (simp add: get_cog_type_def startswith_def)
  have c5: "get_cog_type rd name = Some ''Omni_Cog''"
    if "\<not> startswith name ''Player_''" "startswith name ''CogZ''"
    using that by (auto simp: get_cog_type_def startswith_def)
  have c6: "get_cog_type rd name = Some (snd (cog_type_map rd ! i) @ ''_Cog'')"
    if g: "name \<noteq> ''Blank''" "\<not> startswith name ''Player_''" "name \<noteq> ''CogY''"
          "\<not> startswith name ''CogZ''"
      and i: "i < length (cog_type_map rd)" "endswith name (fst (cog_type_map rd ! i))"
          "\<forall>j < i. \<not> endswith name (fst (cog_type_map rd ! j))" for i
  proof -
    have "find (\<lambda>(direction, cog_type). endswith name direction) (cog_type_map rd)
            = Some (cog_type_map rd ! i)"
      using i by (intro find_first) (auto simp: case_prod_beta)
    then show ?thesis using g by (simp add: get_cog_type_def case_prod_beta)
  qed
  have c7: "get_cog_type rd name = Some ''Cog''"
    if g: "name \<noteq> ''Blank''" "\<not> startswith name ''Player_''" "name \<noteq> ''CogY''"
          "\<not> startswith name ''CogZ''"
      and n: "\<forall>(direction, cog_type) \<in> set (cog_type_map rd). \<not> endswith name direction"
  proof -
    have "find (\<lambda>(direction, cog_type). endswith name direction) (cog_type_map rd) = None"
      using n by (auto simp: find_None_iff)
    then show ?thesis using g by (simp add: get_cog_type_def)
  qed
  have c8: "length (cog_datas out)
      = length (filter (\<lambda>n. n \<noteq> ''Blank'') (map snd (zip (cog_map self) (cog_order self))))"
    if "to_cogstruction dv rd self = Inr out" for out
  proof -
    from that obtain rows where rows: "cog_data_rows dv rd self = Inr rows"
      and out: "cog_datas out = rows"
      by (auto simp: to_cogstruction_def bindE_Inr_iff)
    from rows obtain rs where
      rs: "mapE (\<lambda>(cog, name). get_cog_data dv rd cog name) (zip (cog_map self) (cog_order self)) = Inr rs"
      and f: "rows = List.map_filter id rs"
      by (auto simp: cog_data_rows_def bindE_Inr_iff)
    show ?thesis using cog_rows_count [OF rs] out f by simp
  qed
  show ?thesis using c1 c2 c3 c4 c5 c6 c7 c8 by blast
qed

theorem cog_classification_witness:
  "get_cog_type sample_rd ''Player_Alice'' = Some ''Character''
   \<and> get_cog_type sample_rd ''CogZfoo'' = Some ''Omni_Cog''
   \<and> get_cog_type sample_rd ''Cog3_ri'' = Some ''Right_Cog''
   \<and> get_cog_type sample_rd ''Cog3A00'' = Some ''Cog''
   \<and> map_sum id (length \<circ> cog_datas) (to_cogstruction sample_div sample_rd sample_self) = Inr 3"
proof -
  note c = cog_classification [where rd = sample_rd and dv = sample_div and cog = Map.empty
      and self = sample_self]
  have a: "get_cog_type sample_rd ''Player_Alice'' = Some ''Character''"
    using c [where name = "''Player_Alice''"] by (simp add: startswith_def)
  have b: "get_cog_type sample_rd ''CogZfoo'' = Some ''Omni_Cog''"
    using c [where name = "''CogZfoo''"] by (simp add: startswith_def)
  have m: "cog_type_map sample_rd = [(''_up'', ''Up''), (''_do'', ''Down''), (''_le'', ''Left''),
                     (''_ri'', ''Right'')]" by (simp add: sample_rd_def)
  have d: "get_cog_type sample_rd ''Cog3_ri'' = Some ''Right_Cog''"
  proof -
    have "\<forall>i < length (cog_type_map sample_rd).
             endswith ''Cog3_ri'' (fst (cog_type_map sample_rd ! i))
               \<and> (\<forall>j < i. \<not> endswith ''Cog3_ri'' (fst (cog_type_map sample_rd ! j)))
             \<longrightarrow> get_cog_type sample_rd ''Cog3_ri'' = Some (snd (cog_type_map sample_rd ! i) @ ''_Cog'')"
      using c [where name = "''Cog3_ri''"] by (simp add: startswith_def)
    moreover have "3 < length (cog_type_map sample_rd)" by (simp add: m)
    moreover have "endswith ''Cog3_ri'' (fst (cog_type_map sample_rd ! 3))"
      by (simp add: m endswith_def)
    moreover have "\<forall>j < 3. \<not> endswith ''Cog3_ri'' (fst (cog_type_map sample_rd ! j))"
      by (simp add: m endswith_def less_Suc_eq numeral_3_eq_3)
    ultimately have "get_cog_type sample_rd ''Cog3_ri''
        = Some (snd (cog_type_map sample_rd ! 3) @ ''_Cog'')"
      by blast
    then show ?thesis by (simp add: m)
  qed
  have e: "get_cog_type sample_rd ''Cog3A00'' = Some ''Cog''"
    using c [where name = "''Cog3A00''"] by (simp add: startswith_def endswith_def m)
  have o: "to_cogstruction sample_div sample_rd sample_self = Inr \<lparr>cog_datas =
      [[(''cog type'', JStr ''Yang_Cog''), (''name'', JStr []), (''build_rate'', JNum 12),
        (''build_rate_boost'', JNum (1 / 4)), (''boost_shape'', JStr ''row'')],
       [(''cog type'', JStr ''Character''), (''name'', JStr ''Alice''),
        (''build_rate'', JStr []), (''build_rate_boost'', JStr []), (''boost_shape'', JStr [])],
       [(''cog type'', JStr ''Omni_Cog''), (''name'', JStr []),
        (''build_rate'', JStr []), (''build_rate_boost'', JStr []), (''boost_shape'', JStr [])]],
      empties_datas = map slot_coord [3..<96]\<rparr>"
    by code_simp
  show ?thesis using a b d e o by simp
qed

section \<open>Player class and cog rows\<close>

text \<open>
  Claim C1 (as amended). The \<^verbatim>\<open>class\<close> field of a player record is the display name of
  the player's class id itself: \<^verbatim>\<open>build_char\<close> subscripts the class-name table with
  the id and applies \<^verbatim>\<open>friendly_name\<close>; \<^verbatim>\<open>get_baseclass\<close> takes no part in it.
\<close>

theorem build_char_class:
  assumes "build_char rd self name klass st signs skills bags caps = Inr r"
  shows "get_classname rd klass = Inr (ch_class r)
     \<and> (\<exists>raw. list_getitem (class_names rd) klass = Inr raw \<and> ch_class r = friendly_name raw)"
proof -
  from assms obtain cls where c: "get_classname rd klass = Inr cls" and r: "ch_class r = cls"
    by (auto simp: build_char_def bindE_Inr_iff)
  from c obtain raw where "list_getitem (class_names rd) klass = Inr raw" "cls = friendly_name raw"
    by (auto simp: get_classname_def bindE_Inr_iff)
  then show ?thesis using c r by simp
qed

theorem build_char_class_witness:
  "build_char sample_rd sample_self ''Bob'' 8 [5, 6, 7, 8, 12] ''1,'' [12, 3, 1]
      [(''1'', JNum 1)] [(''Foods'', 25)]
     = Inr \<lparr>ch_name = ''Bob'', ch_class = ''Barbarian'', ch_level = 12,
            ch_constellations = [(''A-1'', True), (''A-3'', True)],
            ch_starSigns = [(''Flexo Bendo'', True)],
            ch_skills = [(''Mining'', 3), (''Smithing'', 1)],
            ch_items = [(''Inventory Bag B'', True), (''Miniscule Food Pouch'', True)]\<rparr>
   \<and> get_classname sample_rd 8 = Inr ''Barbarian''"
proof -
  have b: "build_char sample_rd sample_self ''Bob'' 8 [5, 6, 7, 8, 12] ''1,'' [12, 3, 1]
      [(''1'', JNum 1)] [(''Foods'', 25)]
     = Inr \<lparr>ch_name = ''Bob'', ch_class = ''Barbarian'', ch_level = 12,
            ch_constellations = [(''A-1'', True), (''A-3'', True)],
            ch_starSigns = [(''Flexo Bendo'', True)],
            ch_skills = [(''Mining'', 3), (''Smithing'', 1)],
            ch_items = [(''Inventory Bag B'', True), (''Miniscule Food Pouch'', True)]\<rparr>"
    by code_simp
  show ?thesis using build_char_class [OF b] b by simp
qed

theorem build_char_class_counterexample:
  "map_sum id ch_class
     (build_char sample_rd sample_self ''Bob'' 8 [5, 6, 7, 8, 12] ''1,'' [12, 3, 1]
        [(''1'', JNum 1)] [(''Foods'', 25)]) = Inr ''Barbarian''
   \<and> bindE (get_baseclass 8) (get_classname sample_rd) = Inr ''Warrior''"
  by code_simp

lemma foldE_cog_field:
  assumes "\<forall>(key, field) \<in> set m. key \<in> set (cog_boosts rd) \<longrightarrow>
             (\<forall>v. cog key = Some v \<longrightarrow> (\<exists>c. dv v 100 = Inr c))"
  shows "foldE (cog_field dv rd cog) m data
     = Inr (fold (\<lambda>(k, v). AList.update k v)
              (map (\<lambda>(key, field). (field, cog_cell dv rd cog key)) m) data)"
  using assms
proof (induction m arbitrary: data)
  case Nil
  show ?case by simp
next
  case (Cons p m)
  obtain key field where p: "p = (key, field)" by (cases p)
  have quot: "key \<in> set (cog_boosts rd) \<Longrightarrow> cog key = Some v \<Longrightarrow> \<exists>c. dv v 100 = Inr c" for v
    using Cons.prems p by auto
  have step: "cog_field dv rd cog (key, field) data
      = Inr (AList.update field (cog_cell dv rd cog key) data)"
  proof (cases "cog key")
    case None
    then show ?thesis by (simp add: cog_field_def cog_cell_def)
  next
    case (Some v)
    show ?thesis
    proof (cases "key \<in> set (cog_boosts rd)")
      case True
      then obtain c where "dv v 100 = Inr c" using quot Some by blast
      then show ?thesis using Some True by (simp add: cog_field_def cog_cell_def)
    next
      case False
      then show ?thesis using Some by (simp add: cog_field_def cog_cell_def)
    qed
  qed
  have "foldE (cog_field dv rd cog) m (AList.update field (cog_cell dv rd cog key) data)
     = Inr (fold (\<lambda>(k, v). AList.update k v)
              (map (\<lambda>(key, field). (field, cog_cell dv rd cog key)) m)
              (AList.update field (cog_cell dv rd cog key) data))"
    by (rule Cons.IH) (use Cons.prems in auto)
  then show ?case using step by (simp add: p)
qed

text \<open>
  Claim C2 (as amended). For a cog that is not blank, \<^verbatim>\<open>get_cog_data\<close> returns a row
  whose columns are \<^verbatim>\<open>cog type\<close>, \<^verbatim>\<open>name\<close> and every field of the bonus table, in
  that order. The type is the classified one; the name is the name without the prefix
  \<^verbatim>\<open>Player_\<close> for a name that has it and is blank for every other cog; a field the cog
  lacks is blank, a boost field holds what the division of the saved value by 100
  returns, any other field the saved value. This holds when the field names are distinct
  and differ from the two fixed columns and the division returns for the boost values
  that are present; an exception of the division is not caught.
\<close>

theorem get_cog_data_row:
  assumes "get_cog_type rd name = Some t"
    and "distinct (map snd (cog_datas_map rd))"
    and "''cog type'' \<notin> snd ` set (cog_datas_map rd)"
    and "''name'' \<notin> snd ` set (cog_datas_map rd)"
    and "\<forall>(key, field) \<in> set (cog_datas_map rd). key \<in> set (cog_boosts rd) \<longrightarrow>
           (\<forall>v. cog key = Some v \<longrightarrow> (\<exists>c. dv v 100 = Inr c))"
  shows "\<exists>row. get_cog_data dv rd cog name = Inr (Some row)
     \<and> map fst row = ''cog type'' # ''name'' # map snd (cog_datas_map rd)
     \<and> map_of row ''cog type'' = Some (JStr t)
     \<and> map_of row ''name''
         = Some (JStr (if startswith name ''Player_'' then drop 7 name else []))
     \<and> (\<forall>(key, field) \<in> set (cog_datas_map rd).
          (cog key = None \<longrightarrow> map_of row field = Some (JStr []))
        \<and> (\<forall>v c. cog key = Some v \<longrightarrow> key \<in> set (cog_boosts rd) \<longrightarrow> dv v 100 = Inr c \<longrightarrow>
              map_of row field = Some c)
        \<and> (\<forall>v. cog key = Some v \<longrightarrow> key \<notin> set (cog_boosts rd) \<longrightarrow>
              map_of row field = Some v))"
proof -
  let ?m = "cog_datas_map rd"
  let ?nm = "JStr (if startswith name ''Player_'' then drop 7 name else [])"
  let ?cells = "map (\<lambda>(key, field). (field, cog_cell dv rd cog key)) ?m"
  let ?fixed = "[(''cog type'', JStr t), (''name'', ?nm)]"
  let ?row = "?fixed @ ?cells"
  have keys: "map fst ?cells = map snd ?m" by (induction ?m) auto
  have ch: "(t = ''Character'') = startswith name ''Player_''"
    using assms(1) by (rule get_cog_type_character)
  have nm: "JStr (if t = ''Character'' then removeprefix name ''Player_'' else []) = ?nm"
    using ch by (simp add: removeprefix_def eval_nat_numeral)
  have fixed: "AList.update ''name'' ?nm (AList.update ''cog type'' (JStr t) []) = ?fixed"
    by simp
  have "distinct (map fst ?cells)" unfolding keys by (rule assms(2))
  moreover have "fst ` set ?cells \<inter> fst ` set ?fixed = {}"
  proof -
    have "fst ` set ?cells = snd ` set ?m" using keys by (metis set_map)
    then show ?thesis using assms(3,4) by auto
  qed
  ultimately have fold: "fold (\<lambda>(k, v). AList.update k v) ?cells ?fixed = ?row"
    by (rule fold_update_fresh)
  have res: "get_cog_data dv rd cog name = Inr (Some ?row)"
    using assms(1) foldE_cog_field [where dv = dv and rd = rd and cog = cog
        and m = "cog_datas_map rd" and data = ?fixed, OF assms(5)] fold
    by (simp add: get_cog_data_def Let_def nm del: fold_simps)
  have "map fst ?row = map fst ?fixed @ map fst ?cells" by (rule map_append)
  then have fst_row: "map fst ?row = ''cog type'' # ''name'' # map snd ?m"
    unfolding keys by simp
  have d: "distinct (map fst ?row)"
    unfolding fst_row using assms(2,3,4) by (auto simp: image_iff)
  have t: "map_of ?row ''cog type'' = Some (JStr t)" by simp
  have n: "map_of ?row ''name'' = Some ?nm" by simp
  have cell: "map_of ?row field = Some (cog_cell dv rd cog key)" if "(key, field) \<in> set ?m" for key field
  proof -
    have "(field, cog_cell dv rd cog key) \<in> set ?row" using that by force
    with d show ?thesis by (rule map_of_is_SomeI)
  qed
  have fields: "\<forall>(key, field) \<in> set ?m.
          (cog key = None \<longrightarrow> map_of ?row field = Some (JStr []))
        \<and> (\<forall>v c. cog key = Some v \<longrightarrow> key \<in> set (cog_boosts rd) \<longrightarrow> dv v 100 = Inr c \<longrightarrow>
              map_of ?row field = Some c)
        \<and> (\<forall>v. cog key = Some v \<longrightarrow> key \<notin> set (cog_boosts rd) \<longrightarrow>
              map_of ?row field = Some v)"
  proof (intro ballI, clarify, intro conjI allI impI)
    fix key field assume "(key, field) \<in> set ?m" "cog key = None"
    then show "map_of ?row field = Some (JStr [])"
      using cell by (simp add: cog_cell_def)
  next
    fix key field v c assume "(key, field) \<in> set ?m" "cog key = Some v"
      "key \<in> set (cog_boosts rd)" "dv v 100 = Inr c"
    then show "map_of ?row field = Some c"
      using cell by (simp add: cog_cell_def)
  next
    fix key field v assume "(key, field) \<in> set ?m" "cog key = Some v" "key \<notin> set (cog_boosts rd)"
    then show "map_of ?row field = Some v"
      using cell by (simp add: cog_cell_def)
  qed
  show ?thesis
    by (rule exI [of _ ?row]) (use res fst_row t n fields in blast)
qed

theorem get_cog_data_row_witness:
  "sample_div (JNum 25) 100 = Inr (JNum (1 / 4))
   \<and> get_cog_data sample_div sample_rd
       (map_of [(''a'', JNum 12), (''e'', JNum 25), (''h'', JStr ''row'')]) ''Player_Alice''
     = Inr (Some [(''cog type'', JStr ''Character''), (''name'', JStr ''Alice''),
                  (''build_rate'', JNum 12), (''build_rate_boost'', JNum (1 / 4)),
                  (''boost_shape'', JStr ''row'')])"
proof -
  let ?cog = "map_of [(''a'', JNum 12), (''e'', JNum 25), (''h'', JStr ''row'')]"
  have m: "cog_datas_map sample_rd = [(''a'', ''build_rate''), (''e'', ''build_rate_boost''),
                      (''h'', ''boost_shape'')]"
    and b: "cog_boosts sample_rd = [''e'']"
    by (simp_all add: sample_rd_def)
  have q: "sample_div (JNum 25) 100 = Inr (JNum (1 / 4))" by (simp add: sample_div_def)
  have t: "get_cog_type sample_rd ''Player_Alice'' = Some ''Character''"
    by (simp add: get_cog_type_def startswith_def)
  have h: "distinct (map snd (cog_datas_map sample_rd))"
    "''cog type'' \<notin> snd ` set (cog_datas_map sample_rd)"
    "''name'' \<notin> snd ` set (cog_datas_map sample_rd)"
    "\<forall>(key, field) \<in> set (cog_datas_map sample_rd). key \<in> set (cog_boosts sample_rd) \<longrightarrow>
           (\<forall>v. ?cog key = Some v \<longrightarrow> (\<exists>c. sample_div v 100 = Inr c))"
    by (simp_all add: m b q)
  from get_cog_data_row [where dv = sample_div and rd = sample_rd and cog = ?cog
      and name = "''Player_Alice''" and t = "''Character''", OF t h]
  have ex: "\<exists>row. get_cog_data sample_div sample_rd ?cog ''Player_Alice'' = Inr (Some row)"
    by (elim exE conjE) (rule exI, assumption)
  have "get_cog_data sample_div sample_rd ?cog ''Player_Alice''
     = Inr (Some [(''cog type'', JStr ''Character''), (''name'', JStr ''Alice''),
                  (''build_rate'', JNum 12), (''build_rate_boost'', JNum (1 / 4)),
                  (''boost_shape'', JStr ''row'')])"
    by code_simp
  then show ?thesis using ex q by simp
qed

theorem get_cog_data_name_counterexample:
  "get_cog_data sample_div sample_rd (map_of [(''a'', JNum 12)]) ''CogY''
     = Inr (Some [(''cog type'', JStr ''Yang_Cog''), (''name'', JStr []),
                  (''build_rate'', JNum 12), (''build_rate_boost'', JStr []),
                  (''boost_shape'', JStr [])])"
  by code_simp

section \<open>Short boards\<close>









section \<open>Cards\<close>

lemma dict_of_map_of: "map_of (dict_of kvs) = map_of (rev kvs)"
  by (simp add: dict_of_def fold_update_map_of)

lemma dict_of_distinct_keys: "distinct (map fst (dict_of kvs))"
  by (simp add: dict_of_def fold_update_distinct)

lemma dict_of_subset: "set (dict_of kvs) \<subseteq> set kvs"
proof
  fix p assume p: "p \<in> set (dict_of kvs)"
  obtain k v where kv: "p = (k, v)" by (cases p)
  have "map_of (dict_of kvs) k = Some v"
    using dict_of_distinct_keys p unfolding kv by (rule map_of_is_SomeI)
  then have "map_of (rev kvs) k = Some v" by (simp add: dict_of_map_of)
  then have "(k, v) \<in> set (rev kvs)" by (rule map_of_SomeD)
  then show "p \<in> set kvs" by (simp add: kv)
qed

lemma get_cardtier_spec:
  "card_reqs rd name = Some req \<Longrightarrow> get_cardtier rd name level = Inr (spec_tier level req)"
  by (simp add: get_cardtier_def getitem_def spec_tier_def mult.commute)

text \<open>
  Claim C6. \<^verbatim>\<open>get_cards\<close> keeps exactly the cards whose level is above 0 and maps
  the display name of each to its tier: 0 at level 0, 4 from 9 times the requirement,
  3 from 4 times the requirement, 2 from the requirement, and 1 below it. The card and
  requirement tables must know the kept cards (the code raises \<^verbatim>\<open>KeyError\<close> otherwise)
  and distinct kept cards must have distinct display names.
\<close>

theorem get_cards_tiers:
  assumes "distinct (map fst (cards self))"
    and "\<forall>(name, level) \<in> set (cards self). level > 0 \<longrightarrow>
           name \<in> dom (monster_names rd) \<and> name \<in> dom (card_reqs rd)"
    and "inj_on (monster_names rd) {name. \<exists>level. (name, level) \<in> set (cards self) \<and> level > 0}"
  shows "\<exists>d. get_cards rd self = Inr d
     \<and> d = map (\<lambda>(name, level).
                 (the (monster_names rd name), spec_tier level (the (card_reqs rd name))))
             (filter (\<lambda>(name, level). level > 0) (cards self))
     \<and> fst ` set d = {the (monster_names rd name) | name level.
                        (name, level) \<in> set (cards self) \<and> level > 0}
     \<and> (\<forall>(name, level) \<in> set (cards self). level > 0 \<longrightarrow>
          map_of d (the (monster_names rd name))
            = Some (spec_tier level (the (card_reqs rd name))))"
proof -
  let ?c = "\<lambda>(name, level). level > (0::int)"
  let ?e = "\<lambda>(name, level).
                 (the (monster_names rd name), spec_tier level (the (card_reqs rd name)))"
  let ?kept = "filter ?c (cards self)"
  let ?d = "map ?e ?kept"
  let ?S = "{name. \<exists>level. (name, level) \<in> set (cards self) \<and> level > 0}"
  have kv: "bindE (getitem SKey (monster_names rd) name) (\<lambda>display.
          bindE (get_cardtier rd name level) (\<lambda>tier. Inr (display, tier))) = Inr (?e (name, level))"
    if "(name, level) \<in> set (cards self)" "level > 0" for name level
  proof -
    from assms(2) that obtain dn req where "monster_names rd name = Some dn"
      "card_reqs rd name = Some req" by fastforce
    then show ?thesis by (simp add: getitem_def get_cardtier_spec)
  qed
  have "get_cards rd self = Inr (dict_of ?d)"
    unfolding get_cards_def
    by (rule dict_comp_ok [where c = ?c and e = ?e]) (auto simp: kv)
  moreover have dist: "distinct (map fst ?d)"
  proof -
    have "map fst ?d = map (\<lambda>name. the (monster_names rd name)) (map fst ?kept)"
      by (simp add: case_prod_beta)
    moreover have "distinct (map fst ?kept)"
      using assms(1) by (rule distinct_map_filter)
    moreover have "inj_on (\<lambda>name. the (monster_names rd name)) (set (map fst ?kept))"
    proof (rule inj_onI)
      fix a b assume a: "a \<in> set (map fst ?kept)" and b: "b \<in> set (map fst ?kept)"
        and eq: "the (monster_names rd a) = the (monster_names rd b)"
      have aS: "a \<in> ?S" and bS: "b \<in> ?S" using a b by auto
      have "a \<in> dom (monster_names rd)" "b \<in> dom (monster_names rd)"
        using assms(2) aS bS by auto
      then have "monster_names rd a = monster_names rd b" using eq by auto
      with assms(3) show "a = b" using aS bS by (rule inj_onD)
    qed
    ultimately show ?thesis by (simp only: distinct_map)
  qed
  ultimately have res: "get_cards rd self = Inr ?d" by (simp add: dict_of_distinct)
  have keys: "fst ` set ?d = {the (monster_names rd name) | name level.
                        (name, level) \<in> set (cards self) \<and> level > 0}"
    by force
  have look: "map_of ?d (the (monster_names rd name))
            = Some (spec_tier level (the (card_reqs rd name)))"
    if "(name, level) \<in> set (cards self)" "level > 0" for name level
  proof -
    have "(name, level) \<in> set ?kept" using that by simp
    then have "?e (name, level) \<in> ?e ` set ?kept" by (rule imageI)
    then have "?e (name, level) \<in> set ?d" by (simp only: set_map)
    then have "(the (monster_names rd name), spec_tier level (the (card_reqs rd name))) \<in> set ?d"
      by simp
    with dist show ?thesis by (rule map_of_is_SomeI)
  qed
  show ?thesis
    by (rule exI [of _ ?d]) (use res keys look in blast)
qed

theorem get_cards_tiers_witness:
  "get_cards sample_rd sample_self = Inr [(''Green Mushroom'', 3), (''Bored Bean'', 1)]"
proof -
  have c: "cards sample_self = [(''mushG'', 23), (''frogG'', 0), (''beanG'', 3)]"
    by (simp add: sample_self_def)
  have m: "monster_names sample_rd = map_of [(''mushG'', ''Green Mushroom''), (''frogG'', ''Frog''),
                             (''beanG'', ''Bored Bean'')]"
    and q: "card_reqs sample_rd = map_of [(''mushG'', 5), (''frogG'', 6), (''beanG'', 7)]"
    by (simp_all add: sample_rd_def)
  have h1: "distinct (map fst (cards sample_self))" by (simp add: c)
  have h2: "\<forall>(name, level) \<in> set (cards sample_self). level > 0 \<longrightarrow>
           name \<in> dom (monster_names sample_rd) \<and> name \<in> dom (card_reqs sample_rd)"
    by (simp add: c m q)
  have h3: "inj_on (monster_names sample_rd)
      {name. \<exists>level. (name, level) \<in> set (cards sample_self) \<and> level > 0}"
    by (auto simp: inj_on_def c m)
  from get_cards_tiers [OF h1 h2 h3]
  have "get_cards sample_rd sample_self
      = Inr (map (\<lambda>(name, level).
                 (the (monster_names sample_rd name), spec_tier level (the (card_reqs sample_rd name))))
             (filter (\<lambda>(name, level). level > 0) (cards sample_self)))"
    by (elim exE conjE) simp
  then show ?thesis by (simp add: c m q spec_tier_def)
qed

section \<open>Pouches\<close>

lemma get_pouchsize_spec:
  assumes "stacksize = 25 \<and> (itemtype = ''bCraft'' \<or> itemtype = ''Foods'')
             \<or> stacksize \<in> dom (pouch_sizes rd)"
  shows "get_pouchsize rd itemtype stacksize = Inr (spec_pouch_qualifier rd itemtype stacksize)"
  using assms by (auto simp: get_pouchsize_def spec_pouch_qualifier_def getitem_def)

lemma dict_union_map_of: "map_of (dict_union a b) = map_of a ++ map_of (rev b)"
  by (simp add: dict_union_def fold_update_map_of)

text \<open>
  Claim C8. \<^verbatim>\<open>get_pouches\<close> yields one entry, mapped to \<^verbatim>\<open>True\<close>, for every
  carry-capacity category whose stack size is above 10, and none for the others; the key
  is the size qualifier, the category's display name and \<^verbatim>\<open>Pouch\<close> joined by spaces,
  the qualifier being the size table's entry except \<^verbatim>\<open>Mini\<close> for \<^verbatim>\<open>bCraft\<close> at 25
  and \<^verbatim>\<open>Miniscule\<close> for \<^verbatim>\<open>Foods\<close> at 25. Whenever the class, the level, the
  constellations and the star signs of a player are built, \<^verbatim>\<open>build_char\<close> returns a
  record whose items are the inventory-bag items united with these entries, each pouch
  entry mapped to \<^verbatim>\<open>True\<close>. The tables must know the categories and sizes that are
  looked up (the code raises \<^verbatim>\<open>KeyError\<close> otherwise).
\<close>

theorem get_pouches_entries:
  assumes "\<forall>(itemtype, stacksize) \<in> set caps. stacksize > 10 \<longrightarrow>
             itemtype \<in> dom (pouch_names rd)
             \<and> (stacksize = 25 \<and> (itemtype = ''bCraft'' \<or> itemtype = ''Foods'')
                  \<or> stacksize \<in> dom (pouch_sizes rd))"
  shows "\<exists>p. get_pouches rd caps = Inr p
     \<and> fst ` set p = {spec_pouch_name rd itemtype stacksize | itemtype stacksize.
                        (itemtype, stacksize) \<in> set caps \<and> stacksize > 10}
     \<and> (\<forall>k \<in> fst ` set p. map_of p k = Some True)
     \<and> (\<forall>r. build_char rd self name klass st signs skills bags caps = Inr r \<longrightarrow>
          fst ` set (ch_items r)
            = fst ` set (from_keys_in (bag_map_inv rd) (map fst bags) True) \<union> fst ` set p
          \<and> (\<forall>k \<in> fst ` set p. map_of (ch_items r) k = Some True))
     \<and> (\<forall>cls lvl cons ss.
          get_classname rd klass = Inr cls \<longrightarrow> list_getitem st 4 = Inr lvl \<longrightarrow>
          get_player_constellations rd self name = Inr cons \<longrightarrow>
          parse_player_starsigns rd signs = Inr ss \<longrightarrow>
          (\<exists>r. build_char rd self name klass st signs skills bags caps = Inr r
             \<and> ch_items r = dict_union (from_keys_in (bag_map_inv rd) (map fst bags) True) p
             \<and> fst ` set (ch_items r)
                 = fst ` set (from_keys_in (bag_map_inv rd) (map fst bags) True) \<union> fst ` set p
             \<and> (\<forall>k \<in> fst ` set p. map_of (ch_items r) k = Some True)))"
proof -
  let ?c = "\<lambda>(itemtype, stacksize). stacksize > (10::int)"
  let ?e = "\<lambda>(itemtype, stacksize). (spec_pouch_name rd itemtype stacksize, True)"
  let ?kvs = "map ?e (filter ?c caps)"
  let ?p = "dict_of ?kvs"
  let ?inv = "from_keys_in (bag_map_inv rd) (map fst bags) True"
  have kv: "bindE (get_pouchsize rd itemtype stacksize) (\<lambda>qualifier.
          bindE (getitem SKey (pouch_names rd) itemtype) (\<lambda>pname.
          Inr (join '' '' [qualifier, pname, ''Pouch''], True))) = Inr (?e (itemtype, stacksize))"
    if "(itemtype, stacksize) \<in> set caps" "stacksize > 10" for itemtype stacksize
  proof -
    from assms that have n: "itemtype \<in> dom (pouch_names rd)"
      and s: "stacksize = 25 \<and> (itemtype = ''bCraft'' \<or> itemtype = ''Foods'')
                  \<or> stacksize \<in> dom (pouch_sizes rd)"
      by fastforce+
    from n obtain pn where "pouch_names rd itemtype = Some pn" by auto
    then show ?thesis
      by (simp add: get_pouchsize_spec [OF s] getitem_def spec_pouch_name_def)
  qed
  have res: "get_pouches rd caps = Inr ?p"
    unfolding get_pouches_def
    by (rule dict_comp_ok [where c = ?c and e = ?e]) (auto simp: kv simp del: join.simps)
  have keys: "fst ` set ?p = {spec_pouch_name rd itemtype stacksize | itemtype stacksize.
                        (itemtype, stacksize) \<in> set caps \<and> stacksize > 10}"
    unfolding dict_of_keys by force
  have true: "v = True" if "(k, v) \<in> set ?p" for k v
  proof -
    have "(k, v) \<in> set ?kvs" using that dict_of_subset by blast
    then show ?thesis by auto
  qed
  have look: "map_of ?p k = Some True" if "k \<in> fst ` set ?p" for k
  proof -
    from that obtain v where v: "(k, v) \<in> set ?p" by auto
    have "map_of ?p k = Some v" using dict_of_distinct_keys v by (rule map_of_is_SomeI)
    then show ?thesis using true [OF v] by simp
  qed
  have union: "fst ` set (dict_union ?inv ?p) = fst ` set ?inv \<union> fst ` set ?p
      \<and> (\<forall>k \<in> fst ` set ?p. map_of (dict_union ?inv ?p) k = Some True)"
  proof -
    have "map_of (dict_union ?inv ?p) k = Some True" if "k \<in> fst ` set ?p" for k
    proof -
      from that obtain v where v: "(k, v) \<in> set ?p" by auto
      then have "(k, True) \<in> set ?p" using true by blast
      with dict_of_distinct_keys show ?thesis by (rule dict_union_lookup)
    qed
    then show ?thesis unfolding dict_union_keys by blast
  qed
  have items: "fst ` set (ch_items r) = fst ` set ?inv \<union> fst ` set ?p
          \<and> (\<forall>k \<in> fst ` set ?p. map_of (ch_items r) k = Some True)"
    if "build_char rd self name klass st signs skills bags caps = Inr r" for r
  proof -
    from that res have "ch_items r = dict_union ?inv ?p"
      by (auto simp: build_char_def bindE_Inr_iff)
    then show ?thesis using union by simp
  qed
  have built: "\<exists>r. build_char rd self name klass st signs skills bags caps = Inr r
             \<and> ch_items r = dict_union ?inv ?p
             \<and> fst ` set (ch_items r) = fst ` set ?inv \<union> fst ` set ?p
             \<and> (\<forall>k \<in> fst ` set ?p. map_of (ch_items r) k = Some True)"
    if "get_classname rd klass = Inr cls" "list_getitem st 4 = Inr lvl"
      "get_player_constellations rd self name = Inr cons"
      "parse_player_starsigns rd signs = Inr ss" for cls lvl cons ss
  proof -
    let ?r = "\<lparr>ch_name = name, ch_class = cls, ch_level = lvl,
          ch_constellations = cons, ch_starSigns = ss,
          ch_skills = dict_of (drop 1 (zip (skill_names rd) skills)),
          ch_items = dict_union ?inv ?p\<rparr>"
    have b: "build_char rd self name klass st signs skills bags caps = Inr ?r"
      using that res by (simp add: build_char_def)
    have i: "ch_items ?r = dict_union ?inv ?p" by simp
    show ?thesis using b i items [OF b] by blast
  qed
  have items1: "\<forall>r. build_char rd self name klass st signs skills bags caps = Inr r \<longrightarrow>
          fst ` set (ch_items r) = fst ` set ?inv \<union> fst ` set ?p
          \<and> (\<forall>k \<in> fst ` set ?p. map_of (ch_items r) k = Some True)"
    by (intro allI impI) (rule items)
  have built1: "\<forall>cls lvl cons ss.
          get_classname rd klass = Inr cls \<longrightarrow> list_getitem st 4 = Inr lvl \<longrightarrow>
          get_player_constellations rd self name = Inr cons \<longrightarrow>
          parse_player_starsigns rd signs = Inr ss \<longrightarrow>
          (\<exists>r. build_char rd self name klass st signs skills bags caps = Inr r
             \<and> ch_items r = dict_union ?inv ?p
             \<and> fst ` set (ch_items r) = fst ` set ?inv \<union> fst ` set ?p
             \<and> (\<forall>k \<in> fst ` set ?p. map_of (ch_items r) k = Some True))"
    by (intro allI impI) (rule built)
  have look1: "\<forall>k \<in> fst ` set ?p. map_of ?p k = Some True"
    by (intro ballI) (rule look)
  show ?thesis
    by (rule exI [of _ ?p], intro conjI) (rule res keys look1 items1 built1)+
qed

theorem get_pouches_entries_witness:
  "get_pouches sample_rd [(''bCraft'', 25), (''Foods'', 10), (''Mining'', 50)]
     = Inr [(''Mini Materials Pouch'', True), (''Cramped Mining Pouch'', True)]
   \<and> map_sum id ch_items
       (build_char sample_rd sample_self ''Alice'' 2 [1, 2, 3, 4, 30] ''0,1,_'' [30, 10, 4]
          [(''0'', JNum 1), (''7'', JNum 1)] [(''bCraft'', 25), (''Foods'', 10), (''Mining'', 50)])
     = Inr [(''Inventory Bag A'', True), (''Mini Materials Pouch'', True),
            (''Cramped Mining Pouch'', True)]"
proof -
  let ?caps = "[(''bCraft'', 25), (''Foods'', 10), (''Mining'', 50 :: int)]"
  let ?bags = "[(''0'', JNum 1), (''7'', JNum 1)]"
  let ?build = "build_char sample_rd sample_self ''Alice'' 2 [1, 2, 3, 4, 30] ''0,1,_''
      [30, 10, 4] ?bags ?caps"
  have n: "pouch_names sample_rd = map_of [(''bCraft'', ''Materials''), (''Foods'', ''Food''),
                           (''Mining'', ''Mining'')]"
    and s: "pouch_sizes sample_rd = map_of [(25, ''Miniature''), (50, ''Cramped''), (100, ''Small'')]"
    by (simp_all add: sample_rd_def)
  have h: "\<forall>(itemtype, stacksize) \<in> set ?caps.
             stacksize > 10 \<longrightarrow> itemtype \<in> dom (pouch_names sample_rd)
             \<and> (stacksize = 25 \<and> (itemtype = ''bCraft'' \<or> itemtype = ''Foods'')
                  \<or> stacksize \<in> dom (pouch_sizes sample_rd))"
    by (simp add: n s)
  have c: "get_classname sample_rd 2 = Inr ''Journeyman''" by code_simp
  have l: "list_getitem [1, 2, 3, 4, 30 :: int] 4 = Inr 30" by code_simp
  have g: "get_player_constellations sample_rd sample_self ''Alice'' = Inr [(''A-1'', True)]"
    by code_simp
  have p: "parse_player_starsigns sample_rd ''0,1,_''
      = Inr [(''The Buff Guy'', True), (''Flexo Bendo'', True)]"
    by code_simp
  from get_pouches_entries [where rd = sample_rd and caps = ?caps and self = sample_self
      and name = "''Alice''" and klass = 2 and st = "[1, 2, 3, 4, 30]" and signs = "''0,1,_''"
      and skills = "[30, 10, 4]" and bags = ?bags, OF h]
  obtain pch where all: "\<forall>cls lvl cons ss.
          get_classname sample_rd 2 = Inr cls \<longrightarrow>
          list_getitem [1, 2, 3, 4, 30 :: int] 4 = Inr lvl \<longrightarrow>
          get_player_constellations sample_rd sample_self ''Alice'' = Inr cons \<longrightarrow>
          parse_player_starsigns sample_rd ''0,1,_'' = Inr ss \<longrightarrow>
          (\<exists>r. ?build = Inr r
             \<and> ch_items r = dict_union (from_keys_in (bag_map_inv sample_rd) (map fst ?bags) True) pch
             \<and> fst ` set (ch_items r)
                 = fst ` set (from_keys_in (bag_map_inv sample_rd) (map fst ?bags) True)
                     \<union> fst ` set pch
             \<and> (\<forall>k \<in> fst ` set pch. map_of (ch_items r) k = Some True))"
    by (elim exE conjE) (rule that)
  from all c l g p have built: "\<exists>r. ?build = Inr r" by blast
  have a: "get_pouches sample_rd ?caps
     = Inr [(''Mini Materials Pouch'', True), (''Cramped Mining Pouch'', True)]"
    by code_simp
  have b: "map_sum id ch_items ?build
     = Inr [(''Inventory Bag A'', True), (''Mini Materials Pouch'', True),
            (''Cramped Mining Pouch'', True)]"
    by code_simp
  show ?thesis using built a b by simp
qed

section \<open>Player codes and constellations\<close>

lemma char_codes_length: "length char_codes = 27"
  by (simp add: char_codes_def ascii_lowercase_def)

lemma char_codes_eq: "char_codes = ''_abcdefghijklmnopqrstuvwxyz''"
  by (simp add: char_codes_def ascii_lowercase_def)

lemma zip_names_codes_keys: "map fst (zip ns char_codes) = take 27 ns"
  by (simp add: map_fst_zip_take char_codes_length min.commute take_all_iff min_def)

lemma char_map_keys: "fst ` set (char_map self) = set (take 27 (names self))"
proof -
  have "fst ` set (char_map self) = set (map fst (zip (names self) char_codes))"
    by (simp add: char_map_def dict_of_keys)
  then show ?thesis by (simp only: zip_names_codes_keys)
qed

lemma char_map_lookup:
  assumes "distinct (names self)" and "p < length (names self)" and "p < 27"
  shows "map_of (char_map self) (names self ! p) = Some (char_codes ! p)"
proof -
  let ?z = "zip (names self) char_codes"
  have d: "distinct (map fst ?z)"
    unfolding zip_names_codes_keys using assms(1) by (rule distinct_take)
  then have m: "char_map self = ?z" by (simp add: char_map_def dict_of_distinct)
  have l: "p < length ?z" using assms(2,3) by (simp add: char_codes_length)
  then have "?z ! p = (names self ! p, char_codes ! p)" by simp
  then have "(names self ! p, char_codes ! p) \<in> set ?z" using l by (metis nth_mem)
  with d show ?thesis unfolding m by (rule map_of_is_SomeI)
qed

lemma char_map_missing:
  "name \<notin> set (take 27 (names self)) \<Longrightarrow> map_of (char_map self) name = None"
  by (simp add: map_of_eq_None_iff char_map_keys)

lemma list_getitem_nat: "i < length xs \<Longrightarrow> list_getitem xs (int i) = Inr (xs ! i)"
  by (simp add: list_getitem_def)

lemma constellations_no_code:
  assumes "name \<notin> set (take 27 (names self))" and "starsigns_prog self \<noteq> []"
  shows "get_player_constellations rd self name = Inl (KeyError (SKey name))"
proof -
  obtain x xs where e: "enumerate 0 (starsigns_prog self) = x # xs"
    using assms(2) by (cases "starsigns_prog self") simp_all
  obtain i chars completed where x: "x = (i, (chars, completed))" by (cases x) auto
  have "map_of (char_map self) name = None" using assms(1) by (rule char_map_missing)
  then show ?thesis
    unfolding get_player_constellations_def e
    by (intro dict_comp_first_cond_fails) (simp add: x getitem_def)
qed

text \<open>
  Claim C7. The codes are the sentinel \<^verbatim>\<open>_\<close> followed by \<^verbatim>\<open>a\<close> to \<^verbatim>\<open>z\<close>, and the
  player at position \<open>p\<close> (of the first 27, names being pairwise distinct) gets the
  code at position \<open>p\<close>. For that player \<^verbatim>\<open>get_player_constellations\<close> marks the
  constellation at index \<open>j\<close> exactly when the code occurs in the completion string
  recorded at \<open>j\<close>; a null or empty string marks nobody. Every mark is \<^verbatim>\<open>True\<close>.
\<close>

theorem constellations_by_code:
  assumes "distinct (names self)" and "p < length (names self)" and "p < 27"
    and "length (starsigns_prog self) \<le> length (constellation_names rd)"
    and "distinct (constellation_names rd)"
  shows "char_codes = ''_abcdefghijklmnopqrstuvwxyz''
     \<and> map_of (char_map self) (names self ! p) = Some (char_codes ! p)
     \<and> (\<exists>d. get_player_constellations rd self (names self ! p) = Inr d
          \<and> (\<forall>j < length (starsigns_prog self).
               ((constellation_names rd ! j \<in> fst ` set d)
                  = (char_codes ! p \<in> set (chars_or_empty (fst (starsigns_prog self ! j)))))
               \<and> (fst (starsigns_prog self ! j) = None \<or> fst (starsigns_prog self ! j) = Some []
                    \<longrightarrow> constellation_names rd ! j \<notin> fst ` set d))
          \<and> (\<forall>k \<in> fst ` set d. map_of d k = Some True))"
proof -
  let ?prog = "starsigns_prog self"
  let ?cn = "constellation_names rd"
  let ?code = "char_codes ! p"
  let ?xs = "enumerate 0 ?prog"
  let ?c = "\<lambda>(i :: nat, (chars, completed :: int)). ?code \<in> set (chars_or_empty chars)"
  let ?e = "\<lambda>(i :: nat, (chars :: string option, completed :: int)). (?cn ! i, True)"
  let ?kvs = "map ?e (filter ?c ?xs)"
  let ?d = "dict_of ?kvs"
  have code: "map_of (char_map self) (names self ! p) = Some ?code"
    using assms(1,2,3) by (rule char_map_lookup)
  have mem: "x \<in> set ?xs \<longleftrightarrow> fst x < length ?prog \<and> ?prog ! fst x = snd x" for x
    by (simp add: in_set_enumerate_eq)
  have res: "get_player_constellations rd self (names self ! p) = Inr ?d"
    unfolding get_player_constellations_def
  proof (rule dict_comp_ok [where c = ?c and e = ?e])
    fix x assume "x \<in> set ?xs"
    show "(case x of (i, chars, completed) \<Rightarrow>
            bindE (getitem SKey (map_of (char_map self)) (names self ! p))
              (\<lambda>code. Inr (code \<in> set (chars_or_empty chars)))) = Inr (?c x)"
      by (cases x) (auto simp: code getitem_def)
  next
    fix x assume x: "x \<in> set ?xs"
    then have "fst x < length ?cn" using assms(4) by (simp add: mem)
    then show "(case x of (i, chars, completed) \<Rightarrow>
            bindE (list_getitem ?cn (int i)) (\<lambda>cname. Inr (cname, True))) = Inr (?e x)"
      by (cases x) (auto simp: list_getitem_nat)
  qed
  have keys: "fst ` set ?d = {?cn ! i | i. i < length ?prog \<and> ?code \<in> set (chars_or_empty (fst (?prog ! i)))}"
    (is "_ = ?K")
  proof (rule set_eqI, rule iffI)
    fix k assume "k \<in> fst ` set ?d"
    then have "k \<in> fst ` set ?kvs" by (simp only: dict_of_keys)
    then obtain x where x: "x \<in> set ?xs" "?c x" "k = fst (?e x)" by auto
    obtain i chars completed where xe: "x = (i, (chars, completed))" by (cases x) auto
    have "i < length ?prog" "?prog ! i = (chars, completed)" using x(1) by (simp_all add: mem xe)
    then show "k \<in> ?K" using x(2,3) by (auto simp: xe)
  next
    fix k assume "k \<in> ?K"
    then obtain i where i: "i < length ?prog" "?code \<in> set (chars_or_empty (fst (?prog ! i)))"
      "k = ?cn ! i" by auto
    let ?x = "(i, ?prog ! i)"
    have "?x \<in> set ?xs" using i(1) by (simp add: mem)
    moreover have "?c ?x" using i(2) by (simp add: case_prod_beta)
    ultimately have "?x \<in> set (filter ?c ?xs)" by simp
    then have "?e ?x \<in> ?e ` set (filter ?c ?xs)" by (rule imageI)
    then have "?e ?x \<in> set ?kvs" by (simp only: set_map)
    then have "fst (?e ?x) \<in> fst ` set ?kvs" by (rule imageI)
    then show "k \<in> fst ` set ?d" by (simp add: dict_of_keys i(3) case_prod_beta)
  qed
  have iff: "(?cn ! j \<in> fst ` set ?d) = (?code \<in> set (chars_or_empty (fst (?prog ! j))))"
    if j: "j < length ?prog" for j
  proof
    assume "?cn ! j \<in> fst ` set ?d"
    then obtain i where i: "i < length ?prog" "?code \<in> set (chars_or_empty (fst (?prog ! i)))"
      "?cn ! j = ?cn ! i" unfolding keys by auto
    have "j = i" using assms(4,5) i(1,3) j by (simp add: nth_eq_iff_index_eq)
    then show "?code \<in> set (chars_or_empty (fst (?prog ! j)))" using i(2) by simp
  next
    assume "?code \<in> set (chars_or_empty (fst (?prog ! j)))"
    then show "?cn ! j \<in> fst ` set ?d" unfolding keys using j by auto
  qed
  have empty: "?cn ! j \<notin> fst ` set ?d"
    if "j < length ?prog" "fst (?prog ! j) = None \<or> fst (?prog ! j) = Some []" for j
    using that iff [of j] by (auto simp: chars_or_empty_def)
  have true: "map_of ?d k = Some True" if "k \<in> fst ` set ?d" for k
  proof -
    from that obtain v where v: "(k, v) \<in> set ?d" by auto
    have "(k, v) \<in> set ?kvs" using v dict_of_subset by blast
    then have "v = True" by auto
    moreover have "map_of ?d k = Some v" using dict_of_distinct_keys v by (rule map_of_is_SomeI)
    ultimately show ?thesis by simp
  qed
  show ?thesis
    by (intro conjI exI [of _ ?d]) (use char_codes_eq code res iff empty true in blast)+
qed

theorem constellations_by_code_witness:
  "map_of (char_map sample_self) ''Bob'' = Some (CHR ''a'')
   \<and> get_player_constellations sample_rd sample_self ''Bob''
       = Inr [(''A-1'', True), (''A-3'', True)]"
proof -
  have n: "names sample_self = [''Alice'', ''Bob'']"
    and g: "starsigns_prog sample_self = [(Some ''_a'', 1), (None, 0), (Some ''a'', 1)]"
    by (simp_all add: sample_self_def)
  have c: "constellation_names sample_rd = [''A-1'', ''A-2'', ''A-3'']"
    by (simp add: sample_rd_def)
  have h: "distinct (names sample_self)" "1 < length (names sample_self)" "(1::nat) < 27"
    "length (starsigns_prog sample_self) \<le> length (constellation_names sample_rd)"
    "distinct (constellation_names sample_rd)"
    by (simp_all add: n g c)
  from constellations_by_code [OF h]
  have "map_of (char_map sample_self) (names sample_self ! 1) = Some (char_codes ! 1)"
    by (elim conjE)
  then have a: "map_of (char_map sample_self) ''Bob'' = Some (CHR ''a'')"
    by (simp add: n char_codes_eq)
  have b: "get_player_constellations sample_rd sample_self ''Bob''
       = Inr [(''A-1'', True), (''A-3'', True)]"
    by code_simp
  show ?thesis using a b by simp
qed

section \<open>More than 27 players\<close>

lemma mapE_prefix_stops:
  assumes "n < length zs"
    and "\<And>i. i < n \<Longrightarrow> \<exists>y. f (zs ! i) = Inr y"
    and "f (zs ! n) = Inl e"
  shows "mapE f zs = Inl e"
proof -
  have split: "zs = take n zs @ zs ! n # drop (Suc n) zs"
    using assms(1) by (rule id_take_nth_drop)
  have "\<exists>y. f x = Inr y" if "x \<in> set (take n zs)" for x
  proof -
    from that obtain i where "i < length (take n zs)" "take n zs ! i = x"
      by (auto simp: in_set_conv_nth)
    then have "i < n" "zs ! i = x" by simp_all
    then show ?thesis using assms(2) by blast
  qed
  then have "mapE f (take n zs @ zs ! n # drop (Suc n) zs) = Inl e"
    using assms(3) by (rule mapE_stops)
  then show ?thesis using split by simp
qed

text \<open>
  Claim C10 (as amended). The codes go to the first 27 names only, so the constellation
  lookup of a name that is not among them raises \<^verbatim>\<open>KeyError\<close>, provided there is at
  least one constellation progress entry to evaluate it for. With more than 27 players
  in every per-player list, a 28th name that differs from the first 27, and a non-empty
  progress list, \<^verbatim>\<open>get_chars\<close> fails with that \<^verbatim>\<open>KeyError\<close> at the 28th player, once
  the first 27 records and the 28th player's class and level are built.
\<close>

theorem get_chars_28th_fails:
  assumes "27 < length (names self)" and "27 < length (classes self)"
    and "27 < length (stats self)" and "27 < length (starsigns_equipped self)"
    and "27 < length (skill_levels self)" and "27 < length (bags_used self)"
    and "27 < length (carrycaps self)"
    and "names self ! 27 \<notin> set (take 27 (names self))"
    and "starsigns_prog self \<noteq> []"
    and "\<forall>i < 27. \<exists>r. build_char rd self (names self ! i) (classes self ! i) (stats self ! i)
            (starsigns_equipped self ! i) (skill_levels self ! i) (bags_used self ! i)
            (carrycaps self ! i) = Inr r"
    and "\<exists>c. get_classname rd (classes self ! 27) = Inr c"
    and "4 < length (stats self ! 27)"
  shows "get_player_constellations rd self (names self ! 27) = Inl (KeyError (SKey (names self ! 27)))
     \<and> get_chars rd self = Inl (KeyError (SKey (names self ! 27)))"
proof -
  let ?zs = "zip (names self) (zip (classes self) (zip (stats self) (zip (starsigns_equipped self)
         (zip (skill_levels self) (zip (bags_used self) (carrycaps self))))))"
  let ?f = "\<lambda>(name, klass, stats', starsigns, skills, bags, carrycaps').
             build_char rd self name klass stats' starsigns skills bags carrycaps'"
  have nth: "?zs ! i = (names self ! i, classes self ! i, stats self ! i,
      starsigns_equipped self ! i, skill_levels self ! i, bags_used self ! i, carrycaps self ! i)"
    if "i \<le> 27" for i
    using that assms(1-7) by simp
  have len: "27 < length ?zs" using assms(1-7) by simp
  have cons: "get_player_constellations rd self (names self ! 27)
      = Inl (KeyError (SKey (names self ! 27)))"
    using assms(8,9) by (rule constellations_no_code)
  obtain c where c: "get_classname rd (classes self ! 27) = Inr c" using assms(11) by blast
  have lvl: "list_getitem (stats self ! 27) 4 = Inr (stats self ! 27 ! 4)"
    using assms(12) by (simp add: list_getitem_def)
  have last: "?f (?zs ! 27) = Inl (KeyError (SKey (names self ! 27)))"
    by (simp add: nth build_char_def c lvl cons)
  have first: "\<exists>y. ?f (?zs ! i) = Inr y" if "i < 27" for i
    using that assms(10) by (simp add: nth)
  have "mapE ?f ?zs = Inl (KeyError (SKey (names self ! 27)))"
    using len first last by (rule mapE_prefix_stops)
  then have "get_chars rd self = Inl (KeyError (SKey (names self ! 27)))"
    by (simp only: get_chars_def)
  then show ?thesis using cons by simp
qed

theorem get_chars_28th_fails_witness:
  "length (names (crowd [(Some ''a'', 1)])) = 28
   \<and> get_chars sample_rd (crowd [(Some ''a'', 1)]) = Inl (KeyError (SKey ''Pr''))"
proof -
  let ?s = "crowd [(Some ''a'', 1)]"
  have l: "27 < length (names ?s)" "27 < length (classes ?s)" "27 < length (stats ?s)"
    "27 < length (starsigns_equipped ?s)" "27 < length (skill_levels ?s)"
    "27 < length (bags_used ?s)" "27 < length (carrycaps ?s)"
    by (simp_all add: crowd_def)
  have n: "names ?s ! 27 \<notin> set (take 27 (names ?s))" by code_simp
  have p: "starsigns_prog ?s \<noteq> []" by (simp add: crowd_def)
  have "\<forall>i \<in> set [0..<27]. \<not> isl (build_char sample_rd ?s (names ?s ! i) (classes ?s ! i)
            (stats ?s ! i) (starsigns_equipped ?s ! i) (skill_levels ?s ! i) (bags_used ?s ! i)
            (carrycaps ?s ! i))"
    by code_simp
  then have f: "\<forall>i < 27. \<exists>r. build_char sample_rd ?s (names ?s ! i) (classes ?s ! i)
            (stats ?s ! i) (starsigns_equipped ?s ! i) (skill_levels ?s ! i) (bags_used ?s ! i)
            (carrycaps ?s ! i) = Inr r"
    by (metis atLeastLessThan_iff le0 set_upt sum.collapse(2))
  have c: "\<exists>c. get_classname sample_rd (classes ?s ! 27) = Inr c"
  proof -
    have "get_classname sample_rd (classes ?s ! 27) = Inr ''Beginner''" by code_simp
    then show ?thesis by blast
  qed
  have s: "4 < length (stats ?s ! 27)" by code_simp
  have nm: "names ?s ! 27 = ''Pr''" by code_simp
  have ln: "length (names ?s) = 28" by (simp add: crowd_def)
  show ?thesis using get_chars_28th_fails [OF l n p f c s] nm ln by simp
qed

theorem get_chars_28_players_counterexample:
  "length (names (crowd [])) = 28
   \<and> map_sum id (map ch_name) (get_chars sample_rd (crowd [])) = Inr (names (crowd []))"
  by code_simp

end
